theory Spec2Isabelle
  imports
    Complex_Main
    "HOL-Library.Char_ord"
    "HOL-Library.List_Lexorder"
    "HOL-Library.Sublist"
begin

section \<open>Media backup from a phone: enumeration, transfer, verification, deletion\<close>

text \<open>
  A shallow embedding of \<^verbatim>\<open>src/macos/iphone_backup.py\<close>. Python's \<^verbatim>\<open>str\<close> is
  modelled as \<^typ>\<open>string\<close>; the characters the program inspects (the path separator, the
  dot, the newline, white space, the letters of the extensions and of the answer \<^verbatim>\<open>Y\<close>)
  are ASCII. The order on \<^typ>\<open>string\<close> is the lexicographic order of the character codes,
  which is how Python compares two \<^verbatim>\<open>str\<close> values. Python's unbounded \<^verbatim>\<open>int\<close> is
  \<^typ>\<open>int\<close>. Floats are real numbers: the seconds of the clock, the speed of a
  transfer, and the gigabytes that the program computes to print them. What is printed
  is not part of the model, but a division that raises is: the \<^verbatim>\<open>OverflowError\<close> of
  dividing an integer beyond the range of a float ends the \<^verbatim>\<open>try\<close> block it is in.
\<close>

subsection \<open>Library functions of Python that the program calls\<close>

text \<open>\<^verbatim>\<open>str.lower\<close>, \<^verbatim>\<open>str.upper\<close> and \<^verbatim>\<open>str.strip\<close> on ASCII text.\<close>

definition lower_char :: "char \<Rightarrow> char" where
  "lower_char c =
     (if CHR ''A'' \<le> c \<and> c \<le> CHR ''Z'' then char_of (of_char c + (32::nat)) else c)"

definition upper_char :: "char \<Rightarrow> char" where
  "upper_char c =
     (if CHR ''a'' \<le> c \<and> c \<le> CHR ''z'' then char_of (of_char c - (32::nat)) else c)"

definition lower :: "string \<Rightarrow> string" where
  "lower s = map lower_char s"

definition upper :: "string \<Rightarrow> string" where
  "upper s = map upper_char s"

definition isspace :: "char \<Rightarrow> bool" where
  "isspace c \<longleftrightarrow>
     c = CHR '' '' \<or> (9::nat) \<le> of_char c \<and> of_char c \<le> (13::nat)
       \<or> (28::nat) \<le> of_char c \<and> of_char c \<le> (31::nat)"

definition strip :: "string \<Rightarrow> string" where
  "strip s = rev (dropWhile isspace (rev (dropWhile isspace s)))"

text \<open>
  \<^verbatim>\<open>s.split('\n')\<close>: the pieces between the line feeds; the empty string gives one
  empty piece.
\<close>

fun split_lines :: "string \<Rightarrow> string list" where
  "split_lines [] = [[]]"
| "split_lines (c # s) =
     (if c = CHR 0x0A then [] # split_lines s
      else (case split_lines s of
              [] \<Rightarrow> [[c]]
            | piece # pieces \<Rightarrow> (c # piece) # pieces))"

text \<open>
  \<^verbatim>\<open>posixpath\<close> (the program runs on macOS). \<^verbatim>\<open>p.rfind(c)\<close> is the highest index
  of \<^verbatim>\<open>c\<close> in \<^verbatim>\<open>p\<close>, or \<open>-1\<close>.
\<close>

definition rfind :: "string \<Rightarrow> char \<Rightarrow> int" where
  "rfind p c =
     (if c \<in> set p then int (length p) - 1 - int (length (takeWhile (\<lambda>d. d \<noteq> c) (rev p)))
      else - 1)"

text \<open>
  \<^verbatim>\<open>os.path.join(a, b)\<close>: an absolute \<^verbatim>\<open>b\<close> replaces \<^verbatim>\<open>a\<close>; otherwise the two are
  joined by one separator, which is not added after an empty \<^verbatim>\<open>a\<close> or after a
  separator.
\<close>

definition os_path_join :: "string \<Rightarrow> string \<Rightarrow> string" where
  "os_path_join a b =
     (if b \<noteq> [] \<and> hd b = CHR ''/'' then b
      else if a = [] \<or> last a = CHR ''/'' then a @ b
      else a @ ''/'' @ b)"

text \<open>\<^verbatim>\<open>os.path.basename(p)\<close> is \<^verbatim>\<open>p[p.rfind('/') + 1:]\<close>.\<close>

definition os_path_basename :: "string \<Rightarrow> string" where
  "os_path_basename p = drop (nat (rfind p CHR ''/'' + 1)) p"

text \<open>
  \<^verbatim>\<open>os.path.splitext(p)\<close>: the extension starts at the last dot of the last path
  component, unless only dots stand before it in that component.
  \<^verbatim>\<open>
  sepIndex = p.rfind(sep)
  dotIndex = p.rfind(extsep)
  if dotIndex > sepIndex:
      filenameIndex = sepIndex + 1
      while filenameIndex < dotIndex:
          if p[filenameIndex:filenameIndex+1] != extsep:
              return p[:dotIndex], p[dotIndex:]
          filenameIndex += 1
  return p, p[:0]
  \<close>
\<close>

definition os_path_splitext :: "string \<Rightarrow> string \<times> string" where
  "os_path_splitext p =
     (let sepIndex = rfind p CHR ''/'';
          dotIndex = rfind p CHR ''.''
      in if dotIndex > sepIndex
            \<and> (\<exists>filenameIndex \<in> set [nat (sepIndex + 1) ..< nat dotIndex].
                  p ! filenameIndex \<noteq> CHR ''.'')
         then (take (nat dotIndex) p, drop (nat dotIndex) p)
         else (p, []))"

subsection \<open>The data model\<close>

text \<open>
  A media file is the tuple \<^verbatim>\<open>(source_path, file_name, size)\<close> (the size is
  written \<open>sz\<close> below). The backup directory
  is seen through \<^verbatim>\<open>os.path.exists\<close> and \<^verbatim>\<open>os.path.getsize\<close>: a path is mapped to
  the size in bytes of what exists there.
\<close>

type_synonym media_file = "string \<times> string \<times> int"

type_synonym filesystem = "string \<Rightarrow> int option"

datatype py_error = OSError | ValueError | ZeroDivisionError | OverflowError

text \<open>
  \<^verbatim>\<open>a / b\<close> on two integers gives a float. It raises \<^verbatim>\<open>ZeroDivisionError\<close> when
  \<^verbatim>\<open>b\<close> is zero and \<^verbatim>\<open>OverflowError\<close> when the quotient, rounded to the nearest
  float, is beyond the largest float: from \<open>2 ^ 1024 - 2 ^ 970\<close> on, in absolute value.
  Floats are real numbers here, so the quotient itself is not rounded.
\<close>

definition float_limit :: int where
  "float_limit = 2 ^ 1024 - 2 ^ 970"

definition int_truediv :: "int \<Rightarrow> int \<Rightarrow> py_error + real" where
  "int_truediv a b =
     (if b = 0 then Inl ZeroDivisionError
      else if \<bar>a\<bar> \<ge> float_limit * \<bar>b\<bar> then Inl OverflowError
      else Inr (real_of_int a / real_of_int b))"

text \<open>
  What a call of the transport does (\<^verbatim>\<open>shutil.copy2\<close>, \<^verbatim>\<open>os.remove\<close>, a run of
  \<^verbatim>\<open>adb\<close>): it returns a value, it raises an \<^verbatim>\<open>Exception\<close> (an \<^verbatim>\<open>OSError\<close>, the
  \<^verbatim>\<open>TimeoutExpired\<close> of \<^verbatim>\<open>subprocess.run\<close>), or it is interrupted from the keyboard
  (\<^verbatim>\<open>KeyboardInterrupt\<close>, which \<^verbatim>\<open>except Exception\<close> does not catch). The interrupt is
  modelled for the calls that \<^verbatim>\<open>main\<close> wraps in \<^verbatim>\<open>try ... finally\<close>, the transfer and
  what follows it; a command of the enumeration completes or raises.
\<close>

datatype 'a call = Returned 'a | Raised | Interrupted

datatype subprocess = Completed (returncode: int) (stdout: string) | Raised_exception

definition SUPPORTED_EXTENSIONS :: "string list" where
  "SUPPORTED_EXTENSIONS = [''.mov'', ''.mp4'', ''.avi'', ''.jpg'', ''.jpeg'', ''.png'', ''.heic'']"

definition os_path_exists :: "filesystem \<Rightarrow> string \<Rightarrow> bool" where
  "os_path_exists fs p \<longleftrightarrow> fs p \<noteq> None"

definition os_path_getsize :: "filesystem \<Rightarrow> string \<Rightarrow> py_error + int" where
  "os_path_getsize fs p = (case fs p of None \<Rightarrow> Inl OSError | Some n \<Rightarrow> Inr n)"

subsection \<open>\<^verbatim>\<open>DeviceBackup.verify_files\<close>\<close>

fun verify_loop ::
  "string \<Rightarrow> filesystem \<Rightarrow> media_file list \<Rightarrow> string list \<times> string list
     \<Rightarrow> string list \<times> string list" where
  "verify_loop destination fs [] (verified, failed) = (verified, failed)"
| "verify_loop destination fs ((source_path, file_name, sz) # files) (verified, failed) =
     (let dest_path = os_path_join destination file_name
      in if os_path_exists fs dest_path \<and> os_path_getsize fs dest_path = Inr sz
         then verify_loop destination fs files (verified @ [source_path], failed)
         else verify_loop destination fs files (verified, failed @ [file_name]))"

definition verify_files ::
  "string \<Rightarrow> filesystem \<Rightarrow> media_file list \<Rightarrow> string list \<times> string list" where
  "verify_files destination fs files = verify_loop destination fs files ([], [])"

subsection \<open>\<^verbatim>\<open>DeviceBackup.check_disk_space\<close>\<close>

text \<open>
  \<^verbatim>\<open>shutil.disk_usage\<close> returns the triple \<^verbatim>\<open>(total, used, free)\<close> or raises. The
  function returns the verdict, a \<^verbatim>\<open>bool\<close>; the gigabytes and the shortage are only
  printed. The three divisions by \<^verbatim>\<open>1024**3\<close> are inside the \<^verbatim>\<open>try\<close> block: when one
  of them raises, the handler returns \<open>True\<close>, as it does when \<^verbatim>\<open>disk_usage\<close> raises.
  \<^verbatim>\<open>
  try:
      stat = shutil.disk_usage(self.destination)
      available_bytes = stat.free
      required_gb = required_bytes / (1024**3)
      available_gb = available_bytes / (1024**3)
      if available_bytes < required_bytes:
          shortage_gb = (required_bytes - available_bytes) / (1024**3)
          return False
      else:
          return True
  except Exception as e:
      return True  # Assume sufficient space if check fails
  \<close>
\<close>

record disk_usage =
  total :: int
  used :: int
  free :: int

definition check_disk_space :: "py_error + disk_usage \<Rightarrow> int \<Rightarrow> bool" where
  "check_disk_space stat required_bytes =
     (case stat of
        Inl e \<Rightarrow> True
      | Inr usage \<Rightarrow>
          (let available_bytes = free usage
           in case int_truediv required_bytes (1024 ^ 3) of
                Inl e \<Rightarrow> True
              | Inr required_gb \<Rightarrow>
                  (case int_truediv available_bytes (1024 ^ 3) of
                     Inl e \<Rightarrow> True
                   | Inr available_gb \<Rightarrow>
                       if available_bytes < required_bytes
                       then (case int_truediv (required_bytes - available_bytes) (1024 ^ 3) of
                               Inl e \<Rightarrow> True
                             | Inr shortage_gb \<Rightarrow> False)
                       else True)))"

subsection \<open>\<^verbatim>\<open>find_media_files\<close>\<close>

text \<open>
  \<^verbatim>\<open>iPhoneBackup.find_media_files\<close> walks the mounted device. \<^verbatim>\<open>os.walk\<close> yields the
  triples \<^verbatim>\<open>(root, dirs, files)\<close> (\<open>root\<close> is written \<open>root_dir\<close> below) and
  \<^verbatim>\<open>os.path.getsize\<close> returns a size or raises
  \<^verbatim>\<open>OSError\<close>; both are what the mounted device answers.
\<close>

fun scan_files ::
  "(string \<Rightarrow> py_error + int) \<Rightarrow> string \<Rightarrow> string list \<Rightarrow> media_file list
     \<Rightarrow> media_file list" where
  "scan_files getsize root_dir [] media_files = media_files"
| "scan_files getsize root_dir (file # files) media_files =
     (let ext = lower (snd (os_path_splitext file))
      in if ext \<in> set SUPPORTED_EXTENSIONS
         then (let full_path = os_path_join root_dir file
               in case getsize full_path of
                    Inr sz \<Rightarrow> scan_files getsize root_dir files (media_files @ [(full_path, file, sz)])
                  | Inl e \<Rightarrow> scan_files getsize root_dir files media_files)
         else scan_files getsize root_dir files media_files)"

fun walk_loop ::
  "(string \<Rightarrow> py_error + int) \<Rightarrow> (string \<times> string list \<times> string list) list
     \<Rightarrow> media_file list \<Rightarrow> media_file list" where
  "walk_loop getsize [] media_files = media_files"
| "walk_loop getsize ((root_dir, dirs, files) # walk) media_files =
     walk_loop getsize walk (scan_files getsize root_dir files media_files)"

definition iPhoneBackup_find_media_files ::
  "string option \<Rightarrow> (string \<Rightarrow> bool) \<Rightarrow> (string \<Rightarrow> (string \<times> string list \<times> string list) list)
     \<Rightarrow> (string \<Rightarrow> py_error + int) \<Rightarrow> media_file list" where
  "iPhoneBackup_find_media_files mount_point exists os_walk getsize =
     (case mount_point of
        None \<Rightarrow> []
      | Some mp \<Rightarrow>
          if mp = [] then []
          else (let dcim_path = os_path_join mp ''DCIM''
                in if \<not> exists dcim_path then []
                   else sort_key (\<lambda>x. fst (snd x)) (walk_loop getsize (os_walk dcim_path) [])))"

text \<open>
  \<^verbatim>\<open>int(s)\<close> on ASCII text: white space around (for \<^verbatim>\<open>int\<close> that is the blank and
  the characters 9 to 13), an optional sign, decimal digits with single underscores
  between them, and not more than 4300 digits; anything else raises \<^verbatim>\<open>ValueError\<close>.
\<close>

definition isdigit :: "char \<Rightarrow> bool" where
  "isdigit c \<longleftrightarrow> CHR ''0'' \<le> c \<and> c \<le> CHR ''9''"

definition int_space :: "char \<Rightarrow> bool" where
  "int_space c \<longleftrightarrow> c = CHR '' '' \<or> (9::nat) \<le> of_char c \<and> of_char c \<le> (13::nat)"

fun digits_ok :: "string \<Rightarrow> bool" where
  "digits_ok [] = False"
| "digits_ok [c] = isdigit c"
| "digits_ok (c # d # s) =
     (isdigit c \<and> (if d = CHR ''_'' then digits_ok s else digits_ok (d # s)))"

definition decimal :: "string \<Rightarrow> int" where
  "decimal s = foldl (\<lambda>n c. 10 * n + (int (of_char c) - 48)) 0 s"

definition py_int :: "string \<Rightarrow> py_error + int" where
  "py_int s =
     (let t = rev (dropWhile int_space (rev (dropWhile int_space s)));
          negative = (t \<noteq> [] \<and> hd t = CHR ''-'');
          body = (if t \<noteq> [] \<and> (hd t = CHR ''-'' \<or> hd t = CHR ''+'') then tl t else t);
          digits = filter (\<lambda>c. c \<noteq> CHR ''_'') body
      in if digits_ok body \<and> length digits \<le> 4300
         then Inr ((if negative then - 1 else 1) * decimal digits)
         else Inl ValueError)"

text \<open>
  \<^verbatim>\<open>AndroidBackup.find_media_files\<close> asks the device through \<^verbatim>\<open>adb shell\<close>: one
  \<^verbatim>\<open>find\<close> for the listing, one \<^verbatim>\<open>stat\<close> for each listed file with a supported
  extension; what \<^verbatim>\<open>stat\<close> answers is taken to depend on the path alone. An exception
  raised inside the loop leaves it and reaches the handler around the whole function,
  which returns the empty list: the loop returns \<open>None\<close> then.
\<close>

fun stat_loop ::
  "(string \<Rightarrow> subprocess) \<Rightarrow> string list \<Rightarrow> media_file list \<Rightarrow> media_file list option" where
  "stat_loop adb_stat [] media_files = Some media_files"
| "stat_loop adb_stat (line # file_paths) media_files =
     (let file_path = strip line
      in if file_path = [] then stat_loop adb_stat file_paths media_files
         else (let file_name = os_path_basename file_path;
                   ext = lower (snd (os_path_splitext file_name))
               in if ext \<in> set SUPPORTED_EXTENSIONS
                  then (case adb_stat file_path of
                          Raised_exception \<Rightarrow> None
                        | Completed rc out \<Rightarrow>
                            if rc = 0
                            then (case py_int (strip out) of
                                    Inr sz \<Rightarrow>
                                      stat_loop adb_stat file_paths
                                        (media_files @ [(file_path, file_name, sz)])
                                  | Inl e \<Rightarrow> stat_loop adb_stat file_paths media_files)
                            else stat_loop adb_stat file_paths media_files)
                  else stat_loop adb_stat file_paths media_files))"

definition AndroidBackup_find_media_files ::
  "subprocess \<Rightarrow> (string \<Rightarrow> subprocess) \<Rightarrow> media_file list" where
  "AndroidBackup_find_media_files adb_find adb_stat =
     (case adb_find of
        Raised_exception \<Rightarrow> []
      | Completed rc out \<Rightarrow>
          if rc \<noteq> 0 then []
          else (let file_paths = split_lines (strip out)
                in case stat_loop adb_stat file_paths [] of
                     None \<Rightarrow> []
                   | Some media_files \<Rightarrow> sort_key (\<lambda>x. fst (snd x)) media_files))"

subsection \<open>\<^verbatim>\<open>copy_files\<close>\<close>

text \<open>
  The speed that is printed for a copied file. The first division is one of integers
  (\<^verbatim>\<open>size\<close> is an \<^verbatim>\<open>int\<close>) and can raise \<^verbatim>\<open>OverflowError\<close>; the second one is a
  division of floats, which raises \<^verbatim>\<open>ZeroDivisionError\<close> when the divisor is zero and
  does not raise otherwise.
  \<^verbatim>\<open>
  size_mb = size / (1024 * 1024)
  speed_mbps = size_mb / elapsed if elapsed > 0 else 0
  \<close>
\<close>

definition truediv :: "real \<Rightarrow> real \<Rightarrow> py_error + real" where
  "truediv a b = (if b = 0 then Inl ZeroDivisionError else Inr (a / b))"

definition speed_mbps :: "int \<Rightarrow> real \<Rightarrow> py_error + real" where
  "speed_mbps sz elapsed =
     (case int_truediv sz (1024 * 1024) of
        Inl e \<Rightarrow> Inl e
      | Inr size_mb \<Rightarrow> if elapsed > 0 then truediv size_mb elapsed else Inr 0)"

text \<open>
  The transport of a backup object. \<^verbatim>\<open>shutil.copy2(source_path, dest_path)\<close> and
  \<^verbatim>\<open>adb pull\<close> get the two paths and the backup directory as it is; they leave the
  directory in some state and return (with the seconds that \<^verbatim>\<open>time.time()\<close> advanced
  meanwhile, and for \<^verbatim>\<open>adb\<close> the return code), raise, or are interrupted.
  \<^verbatim>\<open>os.remove(path)\<close> and \<^verbatim>\<open>adb shell rm\<close> get the path on the device.
\<close>

datatype backup =
  iPhoneBackup
    (copy2: "string \<Rightarrow> string \<Rightarrow> filesystem \<Rightarrow> real call \<times> filesystem")
    (os_remove: "string \<Rightarrow> unit call")
| AndroidBackup
    (adb_pull: "string \<Rightarrow> string \<Rightarrow> filesystem \<Rightarrow> (int \<times> real) call \<times> filesystem")
    (adb_rm: "string \<Rightarrow> int call")

text \<open>
  One line of the progress report: \<^verbatim>\<open>Skipped (already copied)\<close> and \<^verbatim>\<open>Copied\<close> with
  the file name, the index and the number of files (and the speed), \<^verbatim>\<open>Error copying\<close>
  with the file name.
\<close>

datatype outcome =
  is_Skipped: Skipped (reported: string) nat nat
| is_Copied: Copied (reported: string) nat nat real
| is_Failed: Failed (reported: string)

text \<open>
  What a run of \<^verbatim>\<open>copy_files\<close> has done: the lines it printed, the calls of the
  transport it made (source and destination path), the backup directory, and whether an
  interrupt ended it.
\<close>

record transfer =
  outcomes :: "outcome list"
  fetch_calls :: "(string \<times> string) list"
  dest_fs :: filesystem
  interrupted :: bool

text \<open>
  The \<^verbatim>\<open>try\<close> statement of the loop body, for each of the two classes. An exception is
  caught and reported; an interrupt is not caught (\<open>None\<close>).
\<close>

fun try_copy ::
  "backup \<Rightarrow> nat \<Rightarrow> nat \<Rightarrow> media_file \<Rightarrow> string \<Rightarrow> filesystem
     \<Rightarrow> outcome option \<times> filesystem" where
  "try_copy (iPhoneBackup shutil_copy2 remove) idx total_files (source_path, file_name, sz)
       dest_path fs =
     (case shutil_copy2 source_path dest_path fs of
        (Returned elapsed, fs') \<Rightarrow>
          (case speed_mbps sz elapsed of
             Inr speed \<Rightarrow> (Some (Copied file_name idx total_files speed), fs')
           | Inl e \<Rightarrow> (Some (Failed file_name), fs'))
      | (Raised, fs') \<Rightarrow> (Some (Failed file_name), fs')
      | (Interrupted, fs') \<Rightarrow> (None, fs'))"
| "try_copy (AndroidBackup pull rm) idx total_files (source_path, file_name, sz)
       dest_path fs =
     (case pull source_path dest_path fs of
        (Returned (rc, elapsed), fs') \<Rightarrow>
          if rc = 0
          then (case speed_mbps sz elapsed of
                  Inr speed \<Rightarrow> (Some (Copied file_name idx total_files speed), fs')
                | Inl e \<Rightarrow> (Some (Failed file_name), fs'))
          else (Some (Failed file_name), fs')
      | (Raised, fs') \<Rightarrow> (Some (Failed file_name), fs')
      | (Interrupted, fs') \<Rightarrow> (None, fs'))"

fun copy_loop ::
  "backup \<Rightarrow> string \<Rightarrow> nat \<Rightarrow> (nat \<times> media_file) list \<Rightarrow> transfer \<Rightarrow> transfer" where
  "copy_loop backup destination total_files [] t = t"
| "copy_loop backup destination total_files ((idx, source_path, file_name, sz) # files) t =
     (let dest_path = os_path_join destination file_name
      in if os_path_exists (dest_fs t) dest_path
            \<and> os_path_getsize (dest_fs t) dest_path = Inr sz
         then copy_loop backup destination total_files files
                (t\<lparr>outcomes := outcomes t @ [Skipped file_name idx total_files]\<rparr>)
         else (case try_copy backup idx total_files (source_path, file_name, sz) dest_path
                      (dest_fs t) of
                 (Some outcome, fs') \<Rightarrow>
                   copy_loop backup destination total_files files
                     (t\<lparr>outcomes := outcomes t @ [outcome],
                        fetch_calls := fetch_calls t @ [(source_path, dest_path)],
                        dest_fs := fs'\<rparr>)
               | (None, fs') \<Rightarrow>
                   t\<lparr>fetch_calls := fetch_calls t @ [(source_path, dest_path)],
                     dest_fs := fs', interrupted := True\<rparr>))"

definition copy_files :: "backup \<Rightarrow> string \<Rightarrow> media_file list \<Rightarrow> filesystem \<Rightarrow> transfer" where
  "copy_files backup destination files fs =
     copy_loop backup destination (length files) (enumerate 1 files)
       \<lparr>outcomes = [], fetch_calls = [], dest_fs = fs, interrupted = False\<rparr>"

subsection \<open>\<^verbatim>\<open>delete_files\<close>\<close>

text \<open>
  One call of the transport for each path, in order; a failure is reported and the loop
  goes on. The result lists the calls made, each with whether the file was deleted.
\<close>

fun try_remove :: "backup \<Rightarrow> string \<Rightarrow> bool option" where
  "try_remove (iPhoneBackup shutil_copy2 remove) path =
     (case remove path of
        Returned u \<Rightarrow> Some True
      | Raised \<Rightarrow> Some False
      | Interrupted \<Rightarrow> None)"
| "try_remove (AndroidBackup pull rm) path =
     (case rm path of
        Returned rc \<Rightarrow> Some (rc = 0)
      | Raised \<Rightarrow> Some False
      | Interrupted \<Rightarrow> None)"

fun delete_files :: "backup \<Rightarrow> string list \<Rightarrow> (string \<times> bool) list" where
  "delete_files backup [] = []"
| "delete_files backup (path # file_paths) =
     (case try_remove backup path of
        Some deleted \<Rightarrow> (path, deleted) # delete_files backup file_paths
      | None \<Rightarrow> [(path, False)])"

subsection \<open>\<^verbatim>\<open>main\<close>\<close>

text \<open>
  The run from the question whether to commence on (the backup object exists, the device
  is connected and mounted). \<^verbatim>\<open>input()\<close> reads the next line of the standard input;
  at its end it raises and the run is over. \<^verbatim>\<open>media_files\<close> is what
  \<^verbatim>\<open>backup.find_media_files()\<close> returned. The result records the verdict of the space
  check, the transfer, the two lists of the verification and the calls of the transport
  that \<^verbatim>\<open>delete_files\<close> made; a part the run did not reach is \<open>None\<close> (or empty).
\<close>

record run =
  space_check :: "bool option"
  transferred :: "transfer option"
  verification :: "(string list \<times> string list) option"
  delete_calls :: "string list"

definition answered_Y :: "string \<Rightarrow> bool" where
  "answered_Y response \<longleftrightarrow> upper (strip response) = ''Y''"

definition copy_verify_delete ::
  "backup \<Rightarrow> string \<Rightarrow> string list \<Rightarrow> media_file list \<Rightarrow> filesystem
     \<Rightarrow> bool \<Rightarrow> run" where
  "copy_verify_delete backup destination stdin media_files fs checked =
     (let t = copy_files backup destination media_files fs;
          (verified, failed) = verify_files destination (dest_fs t) media_files
      in \<lparr>space_check = Some checked,
          transferred = Some t,
          verification = Some (verified, failed),
          delete_calls =
            (if verified \<noteq> []
             then (case stdin of
                     [] \<Rightarrow> []
                   | response # rest \<Rightarrow>
                       if answered_Y response then map fst (delete_files backup verified)
                       else [])
             else [])\<rparr>)"

definition main ::
  "backup \<Rightarrow> string \<Rightarrow> string list \<Rightarrow> media_file list \<Rightarrow> (string \<Rightarrow> py_error + disk_usage)
     \<Rightarrow> filesystem \<Rightarrow> run" where
  "main backup destination stdin media_files shutil_disk_usage fs =
     (let nothing = \<lparr>space_check = None, transferred = None, verification = None,
                      delete_calls = []\<rparr>
      in case stdin of
           [] \<Rightarrow> nothing
         | response # stdin1 \<Rightarrow>
             if \<not> answered_Y response then nothing
             else if media_files = [] then nothing
             else (let total_size = sum_list (map (\<lambda>(source_path, file_name, sz). sz) media_files);
                       checked = check_disk_space (shutil_disk_usage destination) total_size
                   in if \<not> checked
                      then (case stdin1 of
                              [] \<Rightarrow> nothing\<lparr>space_check := Some checked\<rparr>
                            | response # stdin2 \<Rightarrow>
                                if \<not> answered_Y response
                                then nothing\<lparr>space_check := Some checked\<rparr>
                                else copy_verify_delete backup destination stdin2 media_files fs
                                       checked)
                      else copy_verify_delete backup destination stdin1 media_files fs checked))"

subsection \<open>A run used as an example\<close>

text \<open>
  Three pictures on a mounted phone. The copy of the second one fails; the other two
  copies take two seconds each and write five bytes.
\<close>

definition example_files :: "media_file list" where
  "example_files =
     [(''/m/DCIM/a.jpg'', ''a.jpg'', 5), (''/m/DCIM/b.jpg'', ''b.jpg'', 5),
      (''/m/DCIM/c.jpg'', ''c.jpg'', 5)]"

definition example_copy2 :: "string \<Rightarrow> string \<Rightarrow> filesystem \<Rightarrow> real call \<times> filesystem" where
  "example_copy2 source_path dest_path fs =
     (if source_path = ''/m/DCIM/b.jpg'' then (Raised, fs)
      else (Returned 2, fs(dest_path \<mapsto> 5)))"

definition example_backup :: backup where
  "example_backup = iPhoneBackup example_copy2 (\<lambda>path. Returned ())"

definition example_run :: run where
  "example_run =
     main example_backup ''/backup'' [''y'', ''Y''] example_files (\<lambda>d. Inl OSError)
       (\<lambda>path. None)"

text \<open>
  A mounted phone with three pictures in one folder; the size of the second one cannot
  be read.
\<close>

definition example_walk :: "string \<Rightarrow> (string \<times> string list \<times> string list) list" where
  "example_walk dcim_path =
     [(dcim_path, [''100APPLE''], []),
      (os_path_join dcim_path ''100APPLE'', [], [''a.jpg'', ''b.jpg'', ''c.jpg''])]"

definition example_getsize :: "string \<Rightarrow> py_error + int" where
  "example_getsize path = (if path = ''/m/DCIM/100APPLE/b.jpg'' then Inl OSError else Inr 5)"

text \<open>
  A remote shell that lists three pictures. \<^verbatim>\<open>stat\<close> fails for the first one and
  prints no number for the second one. On the second shell the \<^verbatim>\<open>stat\<close> of the first
  picture does not complete: \<^verbatim>\<open>subprocess.run\<close> raises (its timeout of five seconds
  expires).
\<close>

definition example_listing :: string where
  "example_listing =
     ''/sdcard/DCIM/a.jpg\<newline>/sdcard/DCIM/b.jpg\<newline>/sdcard/DCIM/c.jpg\<newline>''"

definition example_stat :: "string \<Rightarrow> subprocess" where
  "example_stat path =
     (if path = ''/sdcard/DCIM/a.jpg'' then Completed 1 []
      else if path = ''/sdcard/DCIM/b.jpg'' then Completed 0 ''?\<newline>''
      else Completed 0 ''7\<newline>'')"

definition example_stat_timeout :: "string \<Rightarrow> subprocess" where
  "example_stat_timeout path =
     (if path = ''/sdcard/DCIM/a.jpg'' then Raised_exception else Completed 0 ''7\<newline>'')"

text \<open>
  The same phone, but the copy of the second picture is interrupted from the keyboard.
\<close>

definition example_copy2_interrupted ::
  "string \<Rightarrow> string \<Rightarrow> filesystem \<Rightarrow> real call \<times> filesystem" where
  "example_copy2_interrupted source_path dest_path fs =
     (if source_path = ''/m/DCIM/b.jpg'' then (Interrupted, fs)
      else (Returned 2, fs(dest_path \<mapsto> 5)))"

definition example_run_interrupted :: run where
  "example_run_interrupted =
     main (iPhoneBackup example_copy2_interrupted (\<lambda>path. Returned ())) ''/backup''
       [''y'', ''n''] example_files (\<lambda>d. Inl OSError) (\<lambda>path. None)"

text \<open>
  Two pictures of the same name in two folders of the phone, of one and of two bytes.
  The backup directory holds the first one from an earlier run; every copy succeeds and
  writes the two bytes of the second one.
\<close>

definition example_same_name :: "media_file list" where
  "example_same_name =
     [(''/m/DCIM/100APPLE/IMG_0001.JPG'', ''IMG_0001.JPG'', 1),
      (''/m/DCIM/101APPLE/IMG_0001.JPG'', ''IMG_0001.JPG'', 2)]"

definition example_run_same_name :: run where
  "example_run_same_name =
     main (iPhoneBackup (\<lambda>source_path dest_path fs. (Returned 1, fs(dest_path \<mapsto> 2)))
             (\<lambda>path. Returned ()))
       ''/backup'' [''y'', ''n''] example_same_name (\<lambda>d. Inl OSError)
       [''/backup/IMG_0001.JPG'' \<mapsto> 1]"

text \<open>
  A picture whose \<^verbatim>\<open>stat\<close> printed a number of 321 digits, and a transport that copies
  it in no time by the clock.
\<close>

definition example_huge_size :: int where
  "example_huge_size = 10 ^ 320"

definition example_huge_files :: "media_file list" where
  "example_huge_files = [(''/sdcard/DCIM/a.jpg'', ''a.jpg'', example_huge_size)]"

definition example_pull_instant ::
  "string \<Rightarrow> string \<Rightarrow> filesystem \<Rightarrow> (int \<times> real) call \<times> filesystem" where
  "example_pull_instant source_path dest_path fs = (Returned (0, 0), fs(dest_path \<mapsto> 5))"

definition example_android_backup :: backup where
  "example_android_backup = AndroidBackup example_pull_instant (\<lambda>path. Returned 0)"


text \<open>
  A mounted phone with two pictures of the same name in two folders, walked in one order
  and in the other.
\<close>

definition example_walk_same_name ::
  "string \<Rightarrow> (string \<times> string list \<times> string list) list" where
  "example_walk_same_name dcim_path =
     [(os_path_join dcim_path ''100APPLE'', [], [''IMG_0001.JPG'']),
      (os_path_join dcim_path ''101APPLE'', [], [''IMG_0001.JPG''])]"

definition example_walk_same_name_reversed ::
  "string \<Rightarrow> (string \<times> string list \<times> string list) list" where
  "example_walk_same_name_reversed dcim_path = rev (example_walk_same_name dcim_path)"

definition example_exists :: "string \<Rightarrow> bool" where
  "example_exists path = True"

definition example_getsize_one :: "string \<Rightarrow> py_error + int" where
  "example_getsize_one path = Inr 1"

section \<open>Properties\<close>

subsection \<open>Verification\<close>

lemma size_check:
  "(os_path_exists fs p \<and> os_path_getsize fs p = Inr sz) \<longleftrightarrow> fs p = Some sz"
  by (auto simp: os_path_exists_def os_path_getsize_def split: option.splits)

lemma verify_loop_filter:
  "verify_loop destination fs files (verified, failed) =
     (verified @ map fst
        (filter (\<lambda>(source_path, file_name, sz).
                   fs (os_path_join destination file_name) = Some sz) files),
      failed @ map (\<lambda>(source_path, file_name, sz). file_name)
        (filter (\<lambda>(source_path, file_name, sz).
                   fs (os_path_join destination file_name) \<noteq> Some sz) files))"
proof (induction files arbitrary: verified failed)
  case Nil
  show ?case by simp
next
  case (Cons x files)
  obtain source_path file_name sz where x: "x = (source_path, file_name, sz)"
    by (cases x) auto
  show ?case
    unfolding x by (simp add: Cons.IH size_check Let_def)
qed

lemma verify_files_filter:
  "verify_files destination fs files =
     (map fst
        (filter (\<lambda>(source_path, file_name, sz).
                   fs (os_path_join destination file_name) = Some sz) files),
      map (\<lambda>(source_path, file_name, sz). file_name)
        (filter (\<lambda>(source_path, file_name, sz).
                   fs (os_path_join destination file_name) \<noteq> Some sz) files))"
  by (simp add: verify_files_def verify_loop_filter)

text \<open>
  Claim C2. \<^verbatim>\<open>verify_files\<close> goes through the media files in order and puts the
  source path of a file on the list \<open>verified\<close> exactly when something exists at
  \<^verbatim>\<open>os.path.join(destination, file_name)\<close> whose size in bytes is the size of the tuple,
  and puts the file name on the list \<open>failed\<close> otherwise. So \<open>verified\<close> is the list of
  the source paths of the files that pass this test, \<open>failed\<close> the list of the names of
  those that do not, and the two lists together have one entry for each media file.
\<close>

theorem verify_files_partition:
  "verify_files destination fs files =
     (map (\<lambda>(source_path, file_name, sz). source_path)
        (filter (\<lambda>(source_path, file_name, sz).
                   fs (os_path_join destination file_name) = Some sz) files),
      map (\<lambda>(source_path, file_name, sz). file_name)
        (filter (\<lambda>(source_path, file_name, sz).
                   fs (os_path_join destination file_name) \<noteq> Some sz) files))
   \<and> length (fst (verify_files destination fs files))
       + length (snd (verify_files destination fs files)) = length files"
proof -
  have fst_eq: "(\<lambda>(source_path, file_name, sz). source_path) = (fst :: media_file \<Rightarrow> string)"
    by auto
  have neg: "(\<lambda>(source_path, file_name, sz). fs (os_path_join destination file_name) \<noteq> Some sz)
           = (\<lambda>x. \<not> (\<lambda>(source_path :: string, file_name, sz).
                         fs (os_path_join destination file_name) = Some sz) x)"
    by auto
  have eq: "verify_files destination fs files =
     (map (\<lambda>(source_path, file_name, sz). source_path)
        (filter (\<lambda>(source_path, file_name, sz).
                   fs (os_path_join destination file_name) = Some sz) files),
      map (\<lambda>(source_path, file_name, sz). file_name)
        (filter (\<lambda>(source_path, file_name, sz).
                   fs (os_path_join destination file_name) \<noteq> Some sz) files))"
    by (simp add: verify_files_filter fst_eq)
  show ?thesis
    unfolding eq by (simp add: neg sum_length_filter_compl)
qed

text \<open>
  The backup directory holds \<^verbatim>\<open>a.jpg\<close> with the right size and \<^verbatim>\<open>b.jpg\<close> with a wrong
  one; \<^verbatim>\<open>c.jpg\<close> is missing.
\<close>

theorem verify_files_partition_witness:
  "verify_files ''/backup'' [''/backup/a.jpg'' \<mapsto> 5, ''/backup/b.jpg'' \<mapsto> 7]
     [(''/m/a.jpg'', ''a.jpg'', 5), (''/m/b.jpg'', ''b.jpg'', 6), (''/m/c.jpg'', ''c.jpg'', 1)]
   = ([''/m/a.jpg''], [''b.jpg'', ''c.jpg''])"
  using verify_files_partition [of "''/backup''"
     "[''/backup/a.jpg'' \<mapsto> 5, ''/backup/b.jpg'' \<mapsto> 7]"
     "[(''/m/a.jpg'', ''a.jpg'', 5), (''/m/b.jpg'', ''b.jpg'', 6), (''/m/c.jpg'', ''c.jpg'', 1)]"]
  by (simp add: os_path_join_def)

subsection \<open>Deletion\<close>

lemma delete_files_calls: "set (map fst (delete_files backup file_paths)) \<subseteq> set file_paths"
  by (induction file_paths) (auto split: option.splits)

lemma copy_verify_delete_fields:
  "transferred (copy_verify_delete backup destination stdin media_files fs checked)
     = Some (copy_files backup destination media_files fs)"
  "verification (copy_verify_delete backup destination stdin media_files fs checked)
     = Some (verify_files destination
               (dest_fs (copy_files backup destination media_files fs)) media_files)"
  "space_check (copy_verify_delete backup destination stdin media_files fs checked)
     = Some checked"
  "set (delete_calls (copy_verify_delete backup destination stdin media_files fs checked))
     \<subseteq> set (fst (verify_files destination
               (dest_fs (copy_files backup destination media_files fs)) media_files))"
proof -
  show "transferred (copy_verify_delete backup destination stdin media_files fs checked)
     = Some (copy_files backup destination media_files fs)"
    by (simp add: copy_verify_delete_def Let_def split: prod.splits)
  show "verification (copy_verify_delete backup destination stdin media_files fs checked)
     = Some (verify_files destination
               (dest_fs (copy_files backup destination media_files fs)) media_files)"
    by (simp add: copy_verify_delete_def Let_def split: prod.splits)
  show "space_check (copy_verify_delete backup destination stdin media_files fs checked)
     = Some checked"
    by (simp add: copy_verify_delete_def Let_def split: prod.splits)
  show "set (delete_calls (copy_verify_delete backup destination stdin media_files fs checked))
     \<subseteq> set (fst (verify_files destination
               (dest_fs (copy_files backup destination media_files fs)) media_files))"
  proof -
    let ?verified = "fst (verify_files destination
               (dest_fs (copy_files backup destination media_files fs)) media_files)"
    have "delete_calls (copy_verify_delete backup destination stdin media_files fs checked) = []
        \<or> delete_calls (copy_verify_delete backup destination stdin media_files fs checked)
            = map fst (delete_files backup ?verified)"
      by (simp add: copy_verify_delete_def Let_def split: prod.splits list.splits)
    then show ?thesis
      using delete_files_calls [of backup ?verified] by auto
  qed
qed

lemma main_cases:
  "(transferred (main backup destination stdin media_files shutil_disk_usage fs) = None
      \<and> verification (main backup destination stdin media_files shutil_disk_usage fs) = None
      \<and> delete_calls (main backup destination stdin media_files shutil_disk_usage fs) = [])
   \<or> (\<exists>stdin'.
         main backup destination stdin media_files shutil_disk_usage fs
           = copy_verify_delete backup destination stdin' media_files fs
               (check_disk_space (shutil_disk_usage destination)
                  (sum_list (map (\<lambda>(source_path, file_name, sz). sz) media_files))))"
  unfolding main_def Let_def
  by (auto split: list.split)

lemma verified_member:
  "path \<in> set (fst (verify_files destination fs files)) \<longleftrightarrow>
     (\<exists>(source_path, file_name, sz) \<in> set files.
        source_path = path \<and> fs (os_path_join destination file_name) = Some sz)"
  by (force simp: verify_files_filter)

subsection \<open>Enumeration\<close>

lemma splitext_append: "fst (os_path_splitext p) @ snd (os_path_splitext p) = p"
  by (simp add: os_path_splitext_def Let_def)

lemma scan_files_set:
  "set (scan_files getsize root_dir files media_files) =
     set media_files \<union>
     {(os_path_join root_dir f, f, sz) | f sz.
        f \<in> set files \<and> lower (snd (os_path_splitext f)) \<in> set SUPPORTED_EXTENSIONS
        \<and> getsize (os_path_join root_dir f) = Inr sz}"
proof (induction files arbitrary: media_files)
  case Nil
  show ?case by simp
next
  case (Cons f files)
  show ?case
  proof (cases "lower (snd (os_path_splitext f)) \<in> set SUPPORTED_EXTENSIONS")
    case False
    then show ?thesis by (auto simp: Cons.IH)
  next
    case True
    show ?thesis
    proof (cases "getsize (os_path_join root_dir f)")
      case (Inl e)
      with True show ?thesis by (auto simp: Cons.IH)
    next
      case (Inr sz)
      with True show ?thesis by (auto simp: Cons.IH)
    qed
  qed
qed

lemma walk_loop_set:
  "set (walk_loop getsize walk media_files) =
     set media_files \<union>
     {(os_path_join root_dir f, f, sz) | root_dir dirs files f sz.
        (root_dir, dirs, files) \<in> set walk
        \<and> f \<in> set files \<and> lower (snd (os_path_splitext f)) \<in> set SUPPORTED_EXTENSIONS
        \<and> getsize (os_path_join root_dir f) = Inr sz}"
proof (induction walk arbitrary: media_files)
  case Nil
  show ?case by simp
next
  case (Cons x walk)
  obtain root_dir dirs files where x: "x = (root_dir, dirs, files)"
    by (cases x) auto
  show ?case
    unfolding x by (simp add: Cons.IH scan_files_set) blast
qed

lemma iPhone_find_set:
  assumes "mount_point = Some mp" "mp \<noteq> []" "exists (os_path_join mp ''DCIM'')"
  shows "set (iPhoneBackup_find_media_files mount_point exists os_walk getsize) =
     {(os_path_join root_dir f, f, sz) | root_dir dirs files f sz.
        (root_dir, dirs, files) \<in> set (os_walk (os_path_join mp ''DCIM''))
        \<and> f \<in> set files \<and> lower (snd (os_path_splitext f)) \<in> set SUPPORTED_EXTENSIONS
        \<and> getsize (os_path_join root_dir f) = Inr sz}"
  using assms by (simp add: iPhoneBackup_find_media_files_def Let_def walk_loop_set)

lemma iPhone_find_subset:
  "set (iPhoneBackup_find_media_files mount_point exists os_walk getsize) \<subseteq>
     {(os_path_join root_dir f, f, sz) | root_dir f sz.
        lower (snd (os_path_splitext f)) \<in> set SUPPORTED_EXTENSIONS
        \<and> getsize (os_path_join root_dir f) = Inr sz}"
  by (auto simp: iPhoneBackup_find_media_files_def Let_def walk_loop_set split: option.splits)

lemma stat_loop_set:
  "stat_loop adb_stat file_paths media_files = Some found \<Longrightarrow>
   set found =
     set media_files \<union>
     {(strip line, os_path_basename (strip line), sz) | line sz.
        line \<in> set file_paths \<and> strip line \<noteq> []
        \<and> lower (snd (os_path_splitext (os_path_basename (strip line))))
            \<in> set SUPPORTED_EXTENSIONS
        \<and> (\<exists>reply. adb_stat (strip line) = Completed 0 reply
                    \<and> py_int (strip reply) = Inr sz)}"
proof (induction file_paths arbitrary: media_files)
  case Nil
  then show ?case by simp
next
  case (Cons line file_paths)
  let ?p = "strip line"
  let ?ok = "lower (snd (os_path_splitext (os_path_basename ?p))) \<in> set SUPPORTED_EXTENSIONS"
  consider (skip) "?p = [] \<or> \<not> ?ok"
    | (raised) "?p \<noteq> []" "?ok" "adb_stat ?p = Raised_exception"
    | (bad) rc reply where "?p \<noteq> []" "?ok" "adb_stat ?p = Completed rc reply"
        "rc \<noteq> 0 \<or> (\<exists>e. py_int (strip reply) = Inl e)"
    | (good) reply sz where "?p \<noteq> []" "?ok" "adb_stat ?p = Completed 0 reply"
        "py_int (strip reply) = Inr sz"
  proof (cases "adb_stat ?p")
    case Raised_exception
    then show ?thesis using skip raised by blast
  next
    case (Completed rc reply)
    then show ?thesis
      using skip bad good by (cases "py_int (strip reply)") (metis, metis)
  qed
  then show ?case
  proof cases
    case skip
    with Cons.prems have "stat_loop adb_stat file_paths media_files = Some found"
      by (auto simp: Let_def split: if_splits)
    from Cons.IH [OF this] skip show ?thesis by auto
  next
    case raised
    with Cons.prems show ?thesis by (simp add: Let_def)
  next
    case bad
    with Cons.prems have "stat_loop adb_stat file_paths media_files = Some found"
      by (auto simp: Let_def split: if_splits sum.splits)
    from Cons.IH [OF this] bad show ?thesis by auto
  next
    case good
    with Cons.prems have
      "stat_loop adb_stat file_paths
         (media_files @ [(?p, os_path_basename ?p, sz)]) = Some found"
      by (auto simp: Let_def)
    from Cons.IH [OF this] good show ?thesis by auto
  qed
qed

lemma stat_loop_None:
  "stat_loop adb_stat file_paths media_files = None \<longleftrightarrow>
     (\<exists>line \<in> set file_paths. strip line \<noteq> []
        \<and> lower (snd (os_path_splitext (os_path_basename (strip line))))
            \<in> set SUPPORTED_EXTENSIONS
        \<and> adb_stat (strip line) = Raised_exception)"
  by (induction file_paths arbitrary: media_files)
     (auto simp: Let_def split: subprocess.splits sum.splits)

lemma Android_find_cases:
  "AndroidBackup_find_media_files adb_find adb_stat = []
   \<or> (\<exists>reply found. adb_find = Completed 0 reply
        \<and> stat_loop adb_stat (split_lines (strip reply)) [] = Some found
        \<and> AndroidBackup_find_media_files adb_find adb_stat
            = sort_key (\<lambda>x. fst (snd x)) found)"
  by (auto simp: AndroidBackup_find_media_files_def Let_def
        split: subprocess.splits option.splits)

text \<open>
  Claim C4. Every media file that \<^verbatim>\<open>find_media_files\<close> returns, for both classes, has
  a file name that ends in an extension (as \<^verbatim>\<open>os.path.splitext\<close> splits it off) whose
  lower-case form is one of \<^verbatim>\<open>.mov .mp4 .avi .jpg .jpeg .png .heic\<close>. A listed item
  with any other extension is in no catalog.
\<close>

theorem extension_filtering:
  "(\<forall>(source_path, file_name, sz)
       \<in> set (iPhoneBackup_find_media_files mount_point exists os_walk getsize).
      \<exists>stem ext. os_path_splitext file_name = (stem, ext) \<and> file_name = stem @ ext
        \<and> lower ext \<in> {''.mov'', ''.mp4'', ''.avi'', ''.jpg'', ''.jpeg'', ''.png'', ''.heic''})
   \<and> (\<forall>(source_path, file_name, sz)
         \<in> set (AndroidBackup_find_media_files adb_find adb_stat).
        \<exists>stem ext. os_path_splitext file_name = (stem, ext) \<and> file_name = stem @ ext
          \<and> lower ext \<in> {''.mov'', ''.mp4'', ''.avi'', ''.jpg'', ''.jpeg'', ''.png'', ''.heic''})"
proof -
  have split: "\<exists>stem ext. os_path_splitext file_name = (stem, ext) \<and> file_name = stem @ ext
          \<and> lower ext \<in> {''.mov'', ''.mp4'', ''.avi'', ''.jpg'', ''.jpeg'', ''.png'', ''.heic''}"
    if "lower (snd (os_path_splitext file_name)) \<in> set SUPPORTED_EXTENSIONS" for file_name
    using that splitext_append [of file_name]
    by (cases "os_path_splitext file_name") (auto simp: SUPPORTED_EXTENSIONS_def)
  have iphone: "lower (snd (os_path_splitext file_name)) \<in> set SUPPORTED_EXTENSIONS"
    if "(source_path, file_name, sz)
          \<in> set (iPhoneBackup_find_media_files mount_point exists os_walk getsize)"
    for source_path file_name sz
    using that iPhone_find_subset [of mount_point exists os_walk getsize] by auto
  have android: "lower (snd (os_path_splitext file_name)) \<in> set SUPPORTED_EXTENSIONS"
    if m: "(source_path, file_name, sz)
          \<in> set (AndroidBackup_find_media_files adb_find adb_stat)"
    for source_path file_name sz
  proof -
    from m Android_find_cases [of adb_find adb_stat] obtain reply found
      where loop: "stat_loop adb_stat (split_lines (strip reply)) [] = Some found"
        and found: "(source_path, file_name, sz) \<in> set found"
      by auto
    from found show ?thesis
      unfolding stat_loop_set [OF loop] by auto
  qed
  show ?thesis
    using split iphone android by blast
qed

text \<open>
  \<^verbatim>\<open>clip.MP4\<close> is in the catalog and \<^verbatim>\<open>notes.txt\<close> is not, on the mounted device and
  on the remote shell.
\<close>

theorem extension_filtering_witness:
  "iPhoneBackup_find_media_files (Some ''/m'') (\<lambda>path. True)
     (\<lambda>dcim_path. [(dcim_path, [], [''clip.MP4'', ''notes.txt''])]) (\<lambda>path. Inr 100)
   = [(''/m/DCIM/clip.MP4'', ''clip.MP4'', 100)]
   \<and> AndroidBackup_find_media_files
       (Completed 0 ''/sdcard/DCIM/clip.MP4\<newline>/sdcard/DCIM/notes.txt\<newline>'')
       (\<lambda>path. Completed 0 ''100\<newline>'')
   = [(''/sdcard/DCIM/clip.MP4'', ''clip.MP4'', 100)]
   \<and> os_path_splitext ''clip.MP4'' = (''clip'', ''.MP4'')
   \<and> lower ''.MP4'' \<in> {''.mov'', ''.mp4'', ''.avi'', ''.jpg'', ''.jpeg'', ''.png'', ''.heic''}
   \<and> lower (snd (os_path_splitext ''notes.txt'')) \<notin> set SUPPORTED_EXTENSIONS"
proof -
  have i: "iPhoneBackup_find_media_files (Some ''/m'') (\<lambda>path. True)
     (\<lambda>dcim_path. [(dcim_path, [], [''clip.MP4'', ''notes.txt''])]) (\<lambda>path. Inr 100)
   = [(''/m/DCIM/clip.MP4'', ''clip.MP4'', 100)]"
    by code_simp
  have a: "AndroidBackup_find_media_files
       (Completed 0 ''/sdcard/DCIM/clip.MP4\<newline>/sdcard/DCIM/notes.txt\<newline>'')
       (\<lambda>path. Completed 0 ''100\<newline>'')
   = [(''/sdcard/DCIM/clip.MP4'', ''clip.MP4'', 100)]"
    by code_simp
  have s: "os_path_splitext ''clip.MP4'' = (''clip'', ''.MP4'')"
    by code_simp
  have n: "lower (snd (os_path_splitext ''notes.txt'')) \<notin> set SUPPORTED_EXTENSIONS"
    by code_simp
  from extension_filtering [of "Some ''/m''" "\<lambda>path. True"
      "\<lambda>dcim_path. [(dcim_path, [], [''clip.MP4'', ''notes.txt''])]" "\<lambda>path. Inr 100"
      "Completed 0 ''/sdcard/DCIM/clip.MP4\<newline>/sdcard/DCIM/notes.txt\<newline>''"
      "\<lambda>path. Completed 0 ''100\<newline>''"]
  have "lower ''.MP4'' \<in> {''.mov'', ''.mp4'', ''.avi'', ''.jpg'', ''.jpeg'', ''.png'', ''.heic''}"
    unfolding i a using s by simp
  with i a s n show ?thesis by blast
qed

subsection \<open>Transfer\<close>

lemma try_copy_outcome:
  "try_copy backup idx total_files (source_path, file_name, sz) dest_path fs = (Some oc, fs')
     \<Longrightarrow> reported oc = file_name \<and> (\<forall>n i k. oc \<noteq> Skipped n i k)"
  by (cases backup)
     (auto split: prod.splits call.splits sum.splits if_splits)

lemma copy_loop_all_skipped:
  "\<forall>(idx, source_path, file_name, sz) \<in> set files.
      dest_fs t (os_path_join destination file_name) = Some sz \<Longrightarrow>
   copy_loop backup destination total_files files t =
     t\<lparr>outcomes := outcomes t
          @ map (\<lambda>(idx, source_path, file_name, sz). Skipped file_name idx total_files) files\<rparr>"
proof (induction files arbitrary: t)
  case Nil
  show ?case by simp
next
  case (Cons x files)
  obtain idx source_path file_name sz where x: "x = (idx, source_path, file_name, sz)"
    by (cases x) auto
  let ?t = "t\<lparr>outcomes := outcomes t @ [Skipped file_name idx total_files]\<rparr>"
  from Cons.prems have here: "dest_fs t (os_path_join destination file_name) = Some sz"
    by (simp add: x)
  from Cons.prems have "\<forall>(idx, source_path, file_name, sz) \<in> set files.
      dest_fs ?t (os_path_join destination file_name) = Some sz"
    by simp
  from Cons.IH [OF this] here show ?case
    by (simp add: x size_check)
qed

lemma copy_loop_reported:
  assumes "\<And>idx total file dest_path fs. fst (try_copy backup idx total file dest_path fs) \<noteq> None"
  shows "map reported (outcomes (copy_loop backup destination total_files files t))
           = map reported (outcomes t) @ map (\<lambda>(idx, source_path, file_name, sz). file_name) files
       \<and> interrupted (copy_loop backup destination total_files files t) = interrupted t"
proof (induction files arbitrary: t)
  case Nil
  show ?case by simp
next
  case (Cons x files)
  obtain idx source_path file_name sz where x: "x = (idx, source_path, file_name, sz)"
    by (cases x) auto
  let ?d = "os_path_join destination file_name"
  show ?case
  proof (cases "dest_fs t ?d = Some sz")
    case True
    then show ?thesis
      by (simp add: x size_check Cons.IH)
  next
    case False
    obtain r fs' where r: "try_copy backup idx total_files (source_path, file_name, sz) ?d
        (dest_fs t) = (r, fs')"
      by (cases "try_copy backup idx total_files (source_path, file_name, sz) ?d (dest_fs t)")
    with assms [of idx total_files "(source_path, file_name, sz)" ?d "dest_fs t"]
    obtain oc where oc: "r = Some oc"
      by (cases r) auto
    from try_copy_outcome [OF r [unfolded oc]] have "reported oc = file_name"
      by simp
    with False r oc show ?thesis
      by (simp add: x size_check Cons.IH)
  qed
qed

lemma copy_loop_fetch_calls:
  "\<exists>calls. fetch_calls (copy_loop backup destination total_files files t)
             = fetch_calls t @ calls
         \<and> subseq calls
             (map (\<lambda>(idx, source_path, file_name, sz).
                     (source_path, os_path_join destination file_name)) files)"
proof (induction files arbitrary: t)
  case Nil
  show ?case by simp
next
  case (Cons x files)
  obtain idx source_path file_name sz where x: "x = (idx, source_path, file_name, sz)"
    by (cases x) auto
  let ?d = "os_path_join destination file_name"
  show ?case
  proof (cases "dest_fs t ?d = Some sz")
    case True
    let ?t = "t\<lparr>outcomes := outcomes t @ [Skipped file_name idx total_files]\<rparr>"
    from Cons.IH [of ?t] obtain calls
      where "fetch_calls (copy_loop backup destination total_files files ?t)
               = fetch_calls t @ calls"
        and "subseq calls (map (\<lambda>(idx, source_path, file_name, sz).
                     (source_path, os_path_join destination file_name)) files)"
      by auto
    with True show ?thesis
      by (auto simp: x size_check intro: subseq_Cons')
  next
    case False
    obtain r fs' where r: "try_copy backup idx total_files (source_path, file_name, sz) ?d
        (dest_fs t) = (r, fs')"
      by (cases "try_copy backup idx total_files (source_path, file_name, sz) ?d (dest_fs t)")
    show ?thesis
    proof (cases r)
      case None
      with False r show ?thesis
        by (simp add: x size_check)
    next
      case (Some oc)
      let ?t = "t\<lparr>outcomes := outcomes t @ [oc],
                   fetch_calls := fetch_calls t @ [(source_path, ?d)], dest_fs := fs'\<rparr>"
      from Cons.IH [of ?t] obtain calls
        where "fetch_calls (copy_loop backup destination total_files files ?t)
                 = (fetch_calls t @ [(source_path, ?d)]) @ calls"
          and "subseq calls (map (\<lambda>(idx, source_path, file_name, sz).
                     (source_path, os_path_join destination file_name)) files)"
        by auto
      with False r Some show ?thesis
        by (simp add: x size_check)
    qed
  qed
qed

text \<open>
  Claim C5. When for every media file of the list the backup directory already holds
  something at \<^verbatim>\<open>os.path.join(destination, file_name)\<close> with the recorded size (as it
  does after a complete earlier run), \<^verbatim>\<open>copy_files\<close> reports \<^verbatim>\<open>Skipped\<close> for every
  file, makes no call of the transport and leaves the backup directory as it was.
\<close>

theorem idempotent_resume:
  assumes "\<forall>(source_path, file_name, sz) \<in> set files.
             fs (os_path_join destination file_name) = Some sz"
  shows "copy_files backup destination files fs =
           \<lparr>outcomes =
              map (\<lambda>(idx, source_path, file_name, sz). Skipped file_name idx (length files))
                (enumerate 1 files),
            fetch_calls = [], dest_fs = fs, interrupted = False\<rparr>"
proof -
  let ?t = "\<lparr>outcomes = [], fetch_calls = [], dest_fs = fs, interrupted = False\<rparr>"
  have "snd ` set (enumerate 1 files) = set files"
    by (metis map_snd_enumerate set_map)
  with assms have "\<forall>(idx, source_path, file_name, sz) \<in> set (enumerate 1 files).
      dest_fs ?t (os_path_join destination file_name) = Some sz"
    by force
  from copy_loop_all_skipped [OF this] show ?thesis
    by (simp add: copy_files_def)
qed

text \<open>
  A second run over two pictures that are already in the backup directory.
\<close>

theorem idempotent_resume_witness:
  "copy_files example_backup ''/backup''
     [(''/m/DCIM/a.jpg'', ''a.jpg'', 5), (''/m/DCIM/c.jpg'', ''c.jpg'', 5)]
     [''/backup/a.jpg'' \<mapsto> 5, ''/backup/c.jpg'' \<mapsto> 5]
   = \<lparr>outcomes = [Skipped ''a.jpg'' 1 2, Skipped ''c.jpg'' 2 2], fetch_calls = [],
      dest_fs = [''/backup/a.jpg'' \<mapsto> 5, ''/backup/c.jpg'' \<mapsto> 5], interrupted = False\<rparr>"
proof -
  have j: "os_path_join ''/backup'' ''a.jpg'' = ''/backup/a.jpg''"
    "os_path_join ''/backup'' ''c.jpg'' = ''/backup/c.jpg''"
    by code_simp+
  have e: "enumerate 1 [(''/m/DCIM/a.jpg'', ''a.jpg'', 5::int), (''/m/DCIM/c.jpg'', ''c.jpg'', 5)]
      = [(1, ''/m/DCIM/a.jpg'', ''a.jpg'', 5), (2, ''/m/DCIM/c.jpg'', ''c.jpg'', 5)]"
    by (simp add: enumerate_eq_zip)
  show ?thesis
    using idempotent_resume [of "[(''/m/DCIM/a.jpg'', ''a.jpg'', 5), (''/m/DCIM/c.jpg'', ''c.jpg'', 5)]"
        "[''/backup/a.jpg'' \<mapsto> 5, ''/backup/c.jpg'' \<mapsto> 5]" "''/backup''" example_backup]
    by (simp add: j e)
qed

lemma speed_mbps_eq:
  "speed_mbps sz elapsed =
     (if \<bar>sz\<bar> \<ge> float_limit * (1024 * 1024) then Inl OverflowError
      else Inr (if elapsed > 0 then real_of_int sz / elapsed / (1024 * 1024) else 0))"
  by (simp add: speed_mbps_def truediv_def int_truediv_def)

lemma map_enumerate:
  "map (\<lambda>(idx, x). g x) (enumerate n xs) = map g xs"
  by (induction xs arbitrary: n) auto

lemma copy_files_reported:
  assumes "\<And>idx total file dest_path fs. fst (try_copy backup idx total file dest_path fs) \<noteq> None"
  shows "map reported (outcomes (copy_files backup destination files fs))
           = map (\<lambda>(source_path, file_name, sz). file_name) files"
    and "\<not> interrupted (copy_files backup destination files fs)"
proof -
  let ?t = "\<lparr>outcomes = [], fetch_calls = [], dest_fs = fs, interrupted = False\<rparr>"
  have e: "map (\<lambda>(idx, source_path, file_name, sz). file_name) (enumerate n files)
      = map (\<lambda>(source_path, file_name, sz). file_name) files" for n
    using map_enumerate [of "\<lambda>(source_path, file_name, sz). file_name" n files]
    by (simp add: case_prod_unfold)
  from copy_loop_reported [OF assms, of destination "length files" "enumerate 1 files" ?t]
  show "map reported (outcomes (copy_files backup destination files fs))
           = map (\<lambda>(source_path, file_name, sz). file_name) files"
    and "\<not> interrupted (copy_files backup destination files fs)"
    by (simp_all add: copy_files_def e)
qed

lemma copy_files_fetch_calls:
  "subseq (fetch_calls (copy_files backup destination files fs))
     (map (\<lambda>(source_path, file_name, sz).
             (source_path, os_path_join destination file_name)) files)"
proof -
  let ?t = "\<lparr>outcomes = [], fetch_calls = [], dest_fs = fs, interrupted = False\<rparr>"
  have e: "map (\<lambda>(idx, source_path, file_name, sz).
                  (source_path, os_path_join destination file_name)) (enumerate n files)
      = map (\<lambda>(source_path, file_name, sz).
                  (source_path, os_path_join destination file_name)) files" for n
    using map_enumerate [of "\<lambda>(source_path, file_name, sz).
        (source_path, os_path_join destination file_name)" n files]
    by (simp add: case_prod_unfold)
  from copy_loop_fetch_calls [of backup destination "length files" "enumerate 1 files" ?t]
  show ?thesis
    by (auto simp: copy_files_def e)
qed

subsection \<open>Skipping and verification\<close>

lemma copy_loop_append:
  "\<not> interrupted t \<Longrightarrow>
   copy_loop backup destination total_files (xs @ ys) t =
     (if interrupted (copy_loop backup destination total_files xs t)
      then copy_loop backup destination total_files xs t
      else copy_loop backup destination total_files ys
             (copy_loop backup destination total_files xs t))"
proof (induction xs arbitrary: t)
  case Nil
  then show ?case by simp
next
  case (Cons x xs)
  obtain idx source_path file_name sz where x: "x = (idx, source_path, file_name, sz)"
    by (cases x) auto
  let ?d = "os_path_join destination file_name"
  show ?case
  proof (cases "dest_fs t ?d = Some sz")
    case True
    with Cons.prems show ?thesis
      by (simp add: x size_check Cons.IH)
  next
    case False
    obtain r fs' where r: "try_copy backup idx total_files (source_path, file_name, sz) ?d
        (dest_fs t) = (r, fs')"
      by (cases "try_copy backup idx total_files (source_path, file_name, sz) ?d (dest_fs t)")
    show ?thesis
    proof (cases r)
      case None
      with False r show ?thesis
        by (simp add: x size_check)
    next
      case (Some oc)
      with False r Cons.prems show ?thesis
        by (simp add: x size_check Cons.IH)
    qed
  qed
qed

lemma copy_loop_outcomes:
  "\<not> interrupted t \<Longrightarrow>
   \<exists>more. outcomes (copy_loop backup destination total_files xs t) = outcomes t @ more
     \<and> (if interrupted (copy_loop backup destination total_files xs t)
         then length more < length xs else length more = length xs)"
proof (induction xs arbitrary: t)
  case Nil
  then show ?case by simp
next
  case (Cons x xs)
  obtain idx source_path file_name sz where x: "x = (idx, source_path, file_name, sz)"
    by (cases x) auto
  let ?d = "os_path_join destination file_name"
  show ?case
  proof (cases "dest_fs t ?d = Some sz")
    case True
    let ?t = "t\<lparr>outcomes := outcomes t @ [Skipped file_name idx total_files]\<rparr>"
    from Cons.prems have "\<not> interrupted ?t" by simp
    from Cons.IH [OF this] obtain more
      where "outcomes (copy_loop backup destination total_files xs ?t) = outcomes ?t @ more"
        and "if interrupted (copy_loop backup destination total_files xs ?t)
             then length more < length xs else length more = length xs"
      by blast
    with True show ?thesis
      by (auto simp: x size_check split: if_splits)
  next
    case False
    obtain r fs' where r: "try_copy backup idx total_files (source_path, file_name, sz) ?d
        (dest_fs t) = (r, fs')"
      by (cases "try_copy backup idx total_files (source_path, file_name, sz) ?d (dest_fs t)")
    show ?thesis
    proof (cases r)
      case None
      with False r show ?thesis
        by (simp add: x size_check)
    next
      case (Some oc)
      let ?t = "t\<lparr>outcomes := outcomes t @ [oc],
                   fetch_calls := fetch_calls t @ [(source_path, ?d)], dest_fs := fs'\<rparr>"
      from Cons.prems have "\<not> interrupted ?t" by simp
      from Cons.IH [OF this] obtain more
        where "outcomes (copy_loop backup destination total_files xs ?t) = outcomes ?t @ more"
          and "if interrupted (copy_loop backup destination total_files xs ?t)
               then length more < length xs else length more = length xs"
        by blast
      with False r Some show ?thesis
        by (auto simp: x size_check split: if_splits)
    qed
  qed
qed

lemma copy_loop_step_skipped:
  assumes t: "\<not> interrupted t"
    and at: "length (outcomes t) < length (outcomes
        (copy_loop backup destination total_files ((idx, source_path, file_name, sz) # ys) t))"
    and skipped: "outcomes
        (copy_loop backup destination total_files ((idx, source_path, file_name, sz) # ys) t)
          ! length (outcomes t) = Skipped name k n"
  shows "dest_fs t (os_path_join destination file_name) = Some sz"
proof (rule ccontr)
  let ?d = "os_path_join destination file_name"
  assume False: "dest_fs t ?d \<noteq> Some sz"
  obtain r fs' where r: "try_copy backup idx total_files (source_path, file_name, sz) ?d
      (dest_fs t) = (r, fs')"
    by (cases "try_copy backup idx total_files (source_path, file_name, sz) ?d (dest_fs t)")
  show False
  proof (cases r)
    case None
    with False r at show False
      by (simp add: size_check)
  next
    case (Some oc)
    let ?t = "t\<lparr>outcomes := outcomes t @ [oc],
                 fetch_calls := fetch_calls t @ [(source_path, ?d)], dest_fs := fs'\<rparr>"
    from t have "\<not> interrupted ?t" by simp
    from copy_loop_outcomes [OF this, of backup destination total_files ys] obtain more
      where "outcomes (copy_loop backup destination total_files ys ?t) = outcomes ?t @ more"
      by blast
    with False r Some skipped have "oc = Skipped name k n"
      by (simp add: size_check nth_append)
    with try_copy_outcome [OF r [unfolded Some]] show False
      by blast
  qed
qed

lemma skipped_present:
  assumes i: "i < length files"
    and entry: "files ! i = (source_path, file_name, sz)"
    and before: "before = copy_loop backup destination (length files)
        (take i (enumerate 1 files))
        \<lparr>outcomes = [], fetch_calls = [], dest_fs = fs, interrupted = False\<rparr>"
    and at: "i < length (outcomes (copy_files backup destination files fs))"
    and skipped: "outcomes (copy_files backup destination files fs) ! i = Skipped name k n"
  shows "dest_fs before (os_path_join destination file_name) = Some sz"
proof -
  define init :: transfer
    where "init = \<lparr>outcomes = [], fetch_calls = [], dest_fs = fs, interrupted = False\<rparr>"
  define es where "es = enumerate 1 files"
  define rest where "rest = drop (Suc i) es"
  have init: "\<not> interrupted init" "outcomes init = []"
    by (simp_all add: init_def)
  have before': "before = copy_loop backup destination (length files) (take i es) init"
    by (simp add: before es_def init_def)
  have files': "copy_files backup destination files fs
      = copy_loop backup destination (length files) es init"
    by (simp add: copy_files_def es_def init_def)
  have len_es: "length es = length files"
    by (simp add: es_def)
  have "es ! i = (Suc i, source_path, file_name, sz)"
    using i entry by (simp add: es_def nth_enumerate_eq)
  with i len_es have es: "es = take i es @ (Suc i, source_path, file_name, sz) # rest"
    unfolding rest_def by (metis id_take_nth_drop)
  have len_take: "length (take i es) = i"
    using i len_es by simp
  from copy_loop_outcomes [OF init(1), of backup destination "length files" "take i es"]
  have len: "if interrupted before then length (outcomes before) < i
             else length (outcomes before) = i"
    unfolding before' [symmetric] init(2) len_take by auto
  have full: "copy_files backup destination files fs =
      (if interrupted before then before
       else copy_loop backup destination (length files)
              ((Suc i, source_path, file_name, sz) # rest) before)"
    unfolding files' before'
    using copy_loop_append [OF init(1), of backup destination "length files" "take i es"
        "(Suc i, source_path, file_name, sz) # rest"] es
    by simp
  have running: "\<not> interrupted before"
  proof
    assume "interrupted before"
    with full len at show False by simp
  qed
  with len have l: "length (outcomes before) = i" by simp
  from running full have f: "copy_files backup destination files fs
      = copy_loop backup destination (length files)
          ((Suc i, source_path, file_name, sz) # rest) before"
    by simp
  show ?thesis
    using copy_loop_step_skipped [OF running, of backup destination "length files" "Suc i"
        source_path file_name sz rest name k n]
      at skipped
    unfolding f l by blast
qed

text \<open>
  Claim C10, as amended. \<^verbatim>\<open>copy_files\<close> skips a media file on the test that
  \<^verbatim>\<open>verify_files\<close> applies: something exists at the destination path with the recorded
  size. So when the \<open>i\<close>-th media file of the list is reported as skipped, the test held
  in the backup directory as the transfer had left it after the files before it
  (\<open>before\<close>); and if at the verification the destination path holds what it held at
  that moment, the source path of the file is on the list \<open>verified\<close>. What must not
  change the destination path in between includes the rest of the transfer itself.
\<close>

theorem skip_implies_verified:
  assumes "i < length files"
    and "files ! i = (source_path, file_name, sz)"
    and "before = copy_loop backup destination (length files) (take i (enumerate 1 files))
           \<lparr>outcomes = [], fetch_calls = [], dest_fs = fs, interrupted = False\<rparr>"
    and "i < length (outcomes (copy_files backup destination files fs))"
    and "outcomes (copy_files backup destination files fs) ! i = Skipped name k n"
    and "fs_verify (os_path_join destination file_name)
           = dest_fs before (os_path_join destination file_name)"
  shows "dest_fs before (os_path_join destination file_name) = Some sz
       \<and> source_path \<in> set (fst (verify_files destination fs_verify files))"
proof -
  from skipped_present [OF assms(1-5)]
  have present: "dest_fs before (os_path_join destination file_name) = Some sz" .
  with assms(6) have "fs_verify (os_path_join destination file_name) = Some sz"
    by simp
  moreover from assms(1,2) have "(source_path, file_name, sz) \<in> set files"
    by (metis nth_mem)
  ultimately have "source_path \<in> set (fst (verify_files destination fs_verify files))"
    unfolding verified_member by blast
  with present show ?thesis by simp
qed

text \<open>
  The claim as stated asks only that the destination is unchanged between the transfer
  and the verification. In \<^verbatim>\<open>main\<close> nothing happens between the two, and still a
  skipped file can fail the verification: the first of two pictures of the same name is
  skipped, the copy of the second one overwrites it, and the verification puts the first
  one on the list \<open>failed\<close>.
\<close>

theorem skip_implies_verified_counterexample:
  "map_option outcomes (transferred example_run_same_name)
     = Some [Skipped ''IMG_0001.JPG'' 1 2, Copied ''IMG_0001.JPG'' 2 2 (1 / 524288)]
   \<and> verification example_run_same_name
       = Some ([''/m/DCIM/101APPLE/IMG_0001.JPG''], [''IMG_0001.JPG''])
   \<and> ''/m/DCIM/100APPLE/IMG_0001.JPG''
       \<notin> set (fst (the (verification example_run_same_name)))"
proof (intro conjI)
  show "map_option outcomes (transferred example_run_same_name)
     = Some [Skipped ''IMG_0001.JPG'' 1 2, Copied ''IMG_0001.JPG'' 2 2 (1 / 524288)]"
    by code_simp
  show v: "verification example_run_same_name
       = Some ([''/m/DCIM/101APPLE/IMG_0001.JPG''], [''IMG_0001.JPG''])"
    by code_simp
  show "''/m/DCIM/100APPLE/IMG_0001.JPG''
       \<notin> set (fst (the (verification example_run_same_name)))"
    by (simp add: v)
qed

text \<open>
  In a run that finds \<^verbatim>\<open>a.jpg\<close> in the backup directory, the picture is skipped and
  verified.
\<close>

theorem skip_implies_verified_witness:
  "outcomes (copy_files example_backup ''/backup'' example_files [''/backup/a.jpg'' \<mapsto> 5]) ! 0
     = Skipped ''a.jpg'' 1 3
   \<and> ''/m/DCIM/a.jpg''
       \<in> set (fst (verify_files ''/backup''
                 (dest_fs (copy_files example_backup ''/backup'' example_files
                    [''/backup/a.jpg'' \<mapsto> 5]))
                 example_files))"
proof -
  let ?t = "copy_files example_backup ''/backup'' example_files [''/backup/a.jpg'' \<mapsto> 5]"
  let ?before = "copy_loop example_backup ''/backup'' (length example_files)
      (take 0 (enumerate 1 example_files))
      \<lparr>outcomes = [], fetch_calls = [], dest_fs = [''/backup/a.jpg'' \<mapsto> 5],
        interrupted = False\<rparr>"
  have i: "0 < length example_files"
    by (simp add: example_files_def)
  have entry: "example_files ! 0 = (''/m/DCIM/a.jpg'', ''a.jpg'', 5)"
    by (simp add: example_files_def)
  have at: "0 < length (outcomes ?t)"
    by code_simp
  have skipped: "outcomes ?t ! 0 = Skipped ''a.jpg'' 1 3"
    by code_simp
  have j: "os_path_join ''/backup'' ''a.jpg'' = ''/backup/a.jpg''"
    by code_simp
  have after: "dest_fs ?t ''/backup/a.jpg'' = Some 5"
    by code_simp
  have same: "dest_fs ?t (os_path_join ''/backup'' ''a.jpg'')
      = dest_fs ?before (os_path_join ''/backup'' ''a.jpg'')"
    by (simp add: j after)
  from skip_implies_verified [where fs_verify = "dest_fs ?t" and before = ?before,
      OF i entry refl at skipped same] skipped
  show ?thesis by blast
qed

subsection \<open>Deletion is contained in verification\<close>

text \<open>
  In a catalog built by \<^verbatim>\<open>AndroidBackup.find_media_files\<close> the source path determines
  the entry: the file name is its base name and the size is what \<^verbatim>\<open>stat\<close> printed for
  it.
\<close>

lemma Android_catalog_functional:
  assumes "(source_path, file_name, sz)
             \<in> set (AndroidBackup_find_media_files adb_find adb_stat)"
    and "(source_path, file_name', sz')
             \<in> set (AndroidBackup_find_media_files adb_find adb_stat)"
  shows "file_name' = file_name \<and> sz' = sz"
proof -
  from assms(1) Android_find_cases [of adb_find adb_stat] obtain reply found
    where loop: "stat_loop adb_stat (split_lines (strip reply)) [] = Some found"
      and found: "set (AndroidBackup_find_media_files adb_find adb_stat) = set found"
    by auto
  from assms show ?thesis
    unfolding found stat_loop_set [OF loop] by auto
qed

text \<open>
  Claim C1. In every run of \<^verbatim>\<open>main\<close>, every path that \<^verbatim>\<open>delete_files\<close> passes to the
  transport is on the list \<open>verified\<close> that \<^verbatim>\<open>verify_files\<close> returned in this run for
  the full list of media files, and so is the source path of a media file whose copy
  exists in the backup directory with the recorded size. No call is made for the source
  path of a media file that fails the verification, in every catalog in which the source
  path determines the entry (a walk that lists every file once gives such a catalog),
  and in every catalog built by \<^verbatim>\<open>AndroidBackup.find_media_files\<close>.
\<close>

theorem deletion_containment:
  assumes r: "r = main backup destination stdin media_files shutil_disk_usage fs"
  shows "(\<forall>path \<in> set (delete_calls r).
            \<exists>t. transferred r = Some t
              \<and> verification r = Some (verify_files destination (dest_fs t) media_files)
              \<and> path \<in> set (fst (verify_files destination (dest_fs t) media_files))
              \<and> (\<exists>(source_path, file_name, sz) \<in> set media_files.
                    source_path = path
                    \<and> dest_fs t (os_path_join destination file_name) = Some sz))
       \<and> ((\<forall>(source_path, file_name, sz) \<in> set media_files.
              \<forall>(source_path', file_name', sz') \<in> set media_files.
                source_path' = source_path \<longrightarrow> file_name' = file_name \<and> sz' = sz) \<longrightarrow>
            (\<forall>(source_path, file_name, sz) \<in> set media_files.
               \<forall>t. transferred r = Some t
                 \<and> dest_fs t (os_path_join destination file_name) \<noteq> Some sz
                 \<longrightarrow> source_path \<notin> set (delete_calls r)))
       \<and> (media_files = AndroidBackup_find_media_files adb_find adb_stat \<longrightarrow>
            (\<forall>(source_path, file_name, sz) \<in> set media_files.
               \<forall>t. transferred r = Some t
                 \<and> dest_fs t (os_path_join destination file_name) \<noteq> Some sz
                 \<longrightarrow> source_path \<notin> set (delete_calls r)))"
proof -
  have first: "\<exists>t. transferred r = Some t
              \<and> verification r = Some (verify_files destination (dest_fs t) media_files)
              \<and> path \<in> set (fst (verify_files destination (dest_fs t) media_files))
              \<and> (\<exists>(source_path, file_name, sz) \<in> set media_files.
                    source_path = path
                    \<and> dest_fs t (os_path_join destination file_name) = Some sz)"
    if path: "path \<in> set (delete_calls r)" for path
  proof -
    from path main_cases [of backup destination stdin media_files shutil_disk_usage fs]
    obtain stdin' checked
      where run: "r = copy_verify_delete backup destination stdin' media_files fs checked"
      unfolding r by fastforce
    let ?t = "copy_files backup destination media_files fs"
    have "path \<in> set (fst (verify_files destination (dest_fs ?t) media_files))"
      using path copy_verify_delete_fields(4) unfolding run by blast
    then show ?thesis
      unfolding run by (simp add: copy_verify_delete_fields verified_member)
  qed
  have second: "source_path \<notin> set (delete_calls r)"
    if same: "\<And>file_name' sz'. (source_path, file_name', sz') \<in> set media_files
                \<Longrightarrow> file_name' = file_name \<and> sz' = sz"
      and t: "transferred r = Some t"
      and bad: "dest_fs t (os_path_join destination file_name) \<noteq> Some sz"
    for source_path file_name sz t
  proof
    assume "source_path \<in> set (delete_calls r)"
    from first [OF this] t obtain file_name' sz'
      where m': "(source_path, file_name', sz') \<in> set media_files"
        and ok: "dest_fs t (os_path_join destination file_name') = Some sz'"
      by auto
    from same [OF m'] ok bad show False by simp
  qed
  have functional: "\<forall>(source_path, file_name, sz) \<in> set media_files.
               \<forall>t. transferred r = Some t
                 \<and> dest_fs t (os_path_join destination file_name) \<noteq> Some sz
                 \<longrightarrow> source_path \<notin> set (delete_calls r)"
    if "\<forall>(source_path, file_name, sz) \<in> set media_files.
              \<forall>(source_path', file_name', sz') \<in> set media_files.
                source_path' = source_path \<longrightarrow> file_name' = file_name \<and> sz' = sz"
    using that second by fastforce
  have android: "\<forall>(source_path, file_name, sz) \<in> set media_files.
               \<forall>t. transferred r = Some t
                 \<and> dest_fs t (os_path_join destination file_name) \<noteq> Some sz
                 \<longrightarrow> source_path \<notin> set (delete_calls r)"
    if "media_files = AndroidBackup_find_media_files adb_find adb_stat"
    using that Android_catalog_functional [of _ _ _ adb_find adb_stat] functional
    by fastforce
  from first functional android show ?thesis
    by blast
qed

text \<open>
  In the example run the copy of \<^verbatim>\<open>b.jpg\<close> fails, the file fails the verification,
  and the two calls of \<^verbatim>\<open>os.remove\<close> are for the other two pictures.
\<close>

theorem deletion_containment_witness:
  "delete_calls example_run = [''/m/DCIM/a.jpg'', ''/m/DCIM/c.jpg'']
   \<and> verification example_run = Some ([''/m/DCIM/a.jpg'', ''/m/DCIM/c.jpg''], [''b.jpg''])
   \<and> ''/m/DCIM/b.jpg'' \<notin> set (delete_calls example_run)"
proof -
  have d: "\<forall>(source_path, file_name, sz) \<in> set example_files.
              \<forall>(source_path', file_name', sz') \<in> set example_files.
                source_path' = source_path \<longrightarrow> file_name' = file_name \<and> sz' = sz"
    by (simp add: example_files_def)
  have calls: "delete_calls example_run = [''/m/DCIM/a.jpg'', ''/m/DCIM/c.jpg'']"
    by code_simp
  have v: "verification example_run = Some ([''/m/DCIM/a.jpg'', ''/m/DCIM/c.jpg''], [''b.jpg''])"
    by code_simp
  have "case transferred example_run of None \<Rightarrow> False | Some t \<Rightarrow> True"
    by code_simp
  then obtain t where t: "transferred example_run = Some t"
    by (cases "transferred example_run") auto
  have "dest_fs (the (transferred example_run)) (os_path_join ''/backup'' ''b.jpg'') = None"
    by code_simp
  with t have bad: "dest_fs t (os_path_join ''/backup'' ''b.jpg'') \<noteq> Some 5"
    by simp
  have m: "(''/m/DCIM/b.jpg'', ''b.jpg'', 5) \<in> set example_files"
    by (simp add: example_files_def)
  from deletion_containment [OF example_run_def, THEN conjunct2, THEN conjunct1, THEN mp, OF d]
    m t bad
  have "''/m/DCIM/b.jpg'' \<notin> set (delete_calls example_run)"
    by blast
  with calls v show ?thesis by blast
qed

subsection \<open>Space check\<close>


lemma example_huge_size:
  "float_limit * 1024 ^ 3 \<le> example_huge_size"
  "float_limit * (1024 * 1024) \<le> example_huge_size"
  "0 < example_huge_size" "3 < example_huge_size"
  by (simp_all add: float_limit_def example_huge_size_def)




subsection \<open>Throughput\<close>

text \<open>
  Claim C6, as amended. The speed reported for a copied file is the size in bytes divided
  by the seconds that elapsed, expressed in megabytes per second: the program first
  divides the size by \<open>1024 * 1024\<close>, an integer division into a float, and this raises
  \<^verbatim>\<open>OverflowError\<close> when the size is \<open>float_limit * (1024 * 1024)\<close> or more. Below
  that bound the speed is the quotient when time elapsed and zero when none did, and the
  file is reported as copied, for both classes. No size and no elapsed time give
  \<^verbatim>\<open>ZeroDivisionError\<close>. Every file reported as copied carries the speed computed from
  the seconds its transport returned. At or above the bound the computation raises
  \<^verbatim>\<open>OverflowError\<close> whatever the elapsed time. The seconds and the speed are real
  numbers here.
\<close>

theorem throughput_guard:
  "speed_mbps sz elapsed \<noteq> Inl ZeroDivisionError
   \<and> (\<bar>sz\<bar> < float_limit * (1024 * 1024) \<longrightarrow>
        (elapsed > 0 \<longrightarrow>
           speed_mbps sz elapsed = Inr (real_of_int sz / elapsed / (1024 * 1024)))
        \<and> (elapsed = 0 \<longrightarrow> speed_mbps sz elapsed = Inr 0)
        \<and> (shutil_copy2 source_path dest_path fs = (Returned elapsed, fs') \<longrightarrow>
             try_copy (iPhoneBackup shutil_copy2 remove) idx total_files
               (source_path, file_name, sz) dest_path fs
             = (Some (Copied file_name idx total_files
                        (if elapsed > 0 then real_of_int sz / elapsed / (1024 * 1024) else 0)),
                fs'))
        \<and> (pull source_path dest_path fs = (Returned (0, elapsed), fs') \<longrightarrow>
             try_copy (AndroidBackup pull rm) idx total_files
               (source_path, file_name, sz) dest_path fs
             = (Some (Copied file_name idx total_files
                        (if elapsed > 0 then real_of_int sz / elapsed / (1024 * 1024) else 0)),
                fs')))
   \<and> (try_copy (iPhoneBackup shutil_copy2 remove) idx total_files
          (source_path, file_name, sz) dest_path fs = (Some (Copied name i k speed), fs') \<longrightarrow>
        (\<exists>seconds. shutil_copy2 source_path dest_path fs = (Returned seconds, fs')
           \<and> speed = (if seconds > 0 then real_of_int sz / seconds / (1024 * 1024) else 0)))
   \<and> (try_copy (AndroidBackup pull rm) idx total_files
          (source_path, file_name, sz) dest_path fs = (Some (Copied name i k speed), fs') \<longrightarrow>
        (\<exists>seconds. pull source_path dest_path fs = (Returned (0, seconds), fs')
           \<and> speed = (if seconds > 0 then real_of_int sz / seconds / (1024 * 1024) else 0)))
   \<and> (\<bar>sz\<bar> \<ge> float_limit * (1024 * 1024) \<longrightarrow> speed_mbps sz elapsed = Inl OverflowError)"
proof (intro conjI impI)
  show "speed_mbps sz elapsed \<noteq> Inl ZeroDivisionError"
    by (simp add: speed_mbps_eq)
next
  assume "\<bar>sz\<bar> < float_limit * (1024 * 1024)" "elapsed > 0"
  then show "speed_mbps sz elapsed = Inr (real_of_int sz / elapsed / (1024 * 1024))"
    by (simp add: speed_mbps_eq)
next
  assume "\<bar>sz\<bar> < float_limit * (1024 * 1024)" "elapsed = 0"
  then show "speed_mbps sz elapsed = Inr 0"
    by (simp add: speed_mbps_eq)
next
  assume "\<bar>sz\<bar> < float_limit * (1024 * 1024)"
    "shutil_copy2 source_path dest_path fs = (Returned elapsed, fs')"
  then show "try_copy (iPhoneBackup shutil_copy2 remove) idx total_files
               (source_path, file_name, sz) dest_path fs
             = (Some (Copied file_name idx total_files
                        (if elapsed > 0 then real_of_int sz / elapsed / (1024 * 1024) else 0)),
                fs')"
    by (simp add: speed_mbps_eq)
next
  assume "\<bar>sz\<bar> < float_limit * (1024 * 1024)"
    "pull source_path dest_path fs = (Returned (0, elapsed), fs')"
  then show "try_copy (AndroidBackup pull rm) idx total_files
               (source_path, file_name, sz) dest_path fs
             = (Some (Copied file_name idx total_files
                        (if elapsed > 0 then real_of_int sz / elapsed / (1024 * 1024) else 0)),
                fs')"
    by (simp add: speed_mbps_eq)
next
  assume "try_copy (iPhoneBackup shutil_copy2 remove) idx total_files
          (source_path, file_name, sz) dest_path fs = (Some (Copied name i k speed), fs')"
  then show "\<exists>seconds. shutil_copy2 source_path dest_path fs = (Returned seconds, fs')
           \<and> speed = (if seconds > 0 then real_of_int sz / seconds / (1024 * 1024) else 0)"
    by (auto simp: speed_mbps_eq split: prod.splits call.splits if_splits)
next
  assume "try_copy (AndroidBackup pull rm) idx total_files
          (source_path, file_name, sz) dest_path fs = (Some (Copied name i k speed), fs')"
  then show "\<exists>seconds. pull source_path dest_path fs = (Returned (0, seconds), fs')
           \<and> speed = (if seconds > 0 then real_of_int sz / seconds / (1024 * 1024) else 0)"
    by (auto simp: speed_mbps_eq split: prod.splits call.splits if_splits)
next
  assume "\<bar>sz\<bar> \<ge> float_limit * (1024 * 1024)"
  then show "speed_mbps sz elapsed = Inl OverflowError"
    by (simp add: speed_mbps_eq)
qed

text \<open>
  The claim as first stated fails at a size beyond the float range: the transport
  fetches the file in no time, and the file is reported as failed, not as copied with
  speed zero.
\<close>

theorem throughput_guard_counterexample:
  "speed_mbps example_huge_size 0 = Inl OverflowError
   \<and> example_pull_instant ''/sdcard/DCIM/a.jpg'' ''/backup/a.jpg'' Map.empty
       = (Returned (0, 0), [''/backup/a.jpg'' \<mapsto> 5])
   \<and> outcomes (copy_files example_android_backup ''/backup'' example_huge_files Map.empty)
       = [Failed ''a.jpg'']"
proof -
  have big: "\<bar>example_huge_size\<bar> \<ge> float_limit * (1024 * 1024)"
    using example_huge_size by linarith
  have s: "speed_mbps example_huge_size 0 = Inl OverflowError"
    using big by (simp add: speed_mbps_eq)
  have p: "example_pull_instant ''/sdcard/DCIM/a.jpg'' ''/backup/a.jpg'' Map.empty
       = (Returned (0, 0), [''/backup/a.jpg'' \<mapsto> 5])"
    by (simp add: example_pull_instant_def)
  have j: "os_path_join ''/backup'' ''a.jpg'' = ''/backup/a.jpg''"
    by code_simp
  have "outcomes (copy_files example_android_backup ''/backup'' example_huge_files Map.empty)
       = [Failed ''a.jpg'']"
    by (simp add: copy_files_def example_huge_files_def example_android_backup_def
        enumerate_eq_zip j size_check p s Let_def)
  with s p show ?thesis by blast
qed

text \<open>
  A run of the amended claim: five bytes in no time, four megabytes in two seconds on
  the mounted device, and a size beyond the bound.
\<close>

theorem throughput_guard_witness:
  "speed_mbps 5 0 = Inr 0
   \<and> speed_mbps 4194304 2 = Inr 2
   \<and> try_copy example_backup 1 3 (''/m/DCIM/a.jpg'', ''a.jpg'', 4194304) ''/backup/a.jpg''
        Map.empty
      = (Some (Copied ''a.jpg'' 1 3 2), [''/backup/a.jpg'' \<mapsto> 5])
   \<and> speed_mbps example_huge_size 2 = Inl OverflowError"
proof -
  have c: "example_copy2 ''/m/DCIM/a.jpg'' ''/backup/a.jpg'' Map.empty
      = (Returned 2, [''/backup/a.jpg'' \<mapsto> 5])"
    by (simp add: example_copy2_def)
  have small: "\<bar>5 :: int\<bar> < float_limit * (1024 * 1024)"
    "\<bar>4194304 :: int\<bar> < float_limit * (1024 * 1024)"
    by (simp_all add: float_limit_def)
  have big: "\<bar>example_huge_size\<bar> \<ge> float_limit * (1024 * 1024)"
    using example_huge_size by linarith
  from throughput_guard [of 5 0] small(1) have zero: "speed_mbps 5 0 = Inr 0"
    by simp
  from throughput_guard [of 4194304 2] small(2) have two: "speed_mbps 4194304 2 = Inr 2"
    by simp
  from throughput_guard [of 4194304 2 example_copy2 "''/m/DCIM/a.jpg''" "''/backup/a.jpg''"
      Map.empty "[''/backup/a.jpg'' \<mapsto> 5]" "\<lambda>path. Returned ()" 1 3 "''a.jpg''"]
    c small(2)
  have copied: "try_copy example_backup 1 3 (''/m/DCIM/a.jpg'', ''a.jpg'', 4194304)
        ''/backup/a.jpg'' Map.empty
      = (Some (Copied ''a.jpg'' 1 3 2), [''/backup/a.jpg'' \<mapsto> 5])"
    by (simp add: example_backup_def)
  from throughput_guard [of example_huge_size 2] big
  have over: "speed_mbps example_huge_size 2 = Inl OverflowError"
    by simp
  from zero two copied over show ?thesis by blast
qed

subsection \<open>Order of the catalog\<close>

lemma find_sorted:
  "sorted (map (\<lambda>x. fst (snd x))
             (iPhoneBackup_find_media_files mount_point exists os_walk getsize))"
  "sorted (map (\<lambda>x. fst (snd x)) (AndroidBackup_find_media_files adb_find adb_stat))"
  by (simp_all add: iPhoneBackup_find_media_files_def AndroidBackup_find_media_files_def Let_def
        split: option.splits subprocess.splits)

lemma name_selector:
  "(\<lambda>(source_path, file_name, sz). file_name) = (\<lambda>x :: media_file. fst (snd x))"
  by auto

lemma sorted_distinct_catalog_unique:
  fixes xs ys :: "media_file list"
  assumes "sorted (map (\<lambda>x. fst (snd x)) xs)" "sorted (map (\<lambda>x. fst (snd x)) ys)"
    and "distinct (map (\<lambda>x. fst (snd x)) xs)" "distinct (map (\<lambda>x. fst (snd x)) ys)"
    and "set xs = set ys"
  shows "xs = ys"
proof -
  have "inj_on (\<lambda>x. fst (snd x)) (set xs)"
    using assms(3) by (simp add: distinct_map)
  then have "inj_on (\<lambda>x. fst (snd x)) (set xs \<union> set ys)"
    using assms(5) by simp
  then show ?thesis
    using assms(1) assms(3) assms(2) assms(4) assms(5) by (rule map_sorted_distinct_set_unique)
qed

lemma iPhone_find_same_entries:
  assumes "{(root_dir, f). \<exists>dirs files. (root_dir, dirs, files) \<in> set (os_walk dcim_path)
               \<and> f \<in> set files}
         = {(root_dir, f). \<exists>dirs files. (root_dir, dirs, files) \<in> set (os_walk' dcim_path)
               \<and> f \<in> set files}"
    and "\<forall>mp. mount_point = Some mp \<longrightarrow> dcim_path = os_path_join mp ''DCIM''"
  shows "set (iPhoneBackup_find_media_files mount_point exists os_walk getsize)
       = set (iPhoneBackup_find_media_files mount_point exists os_walk' getsize)"
proof -
  define entries :: "(string \<times> string list \<times> string list) list \<Rightarrow> (string \<times> string) set"
    where "entries w = {(root_dir, f). \<exists>dirs files. (root_dir, dirs, files) \<in> set w
               \<and> f \<in> set files}" for w
  have wl: "set (walk_loop getsize w [])
     = {(os_path_join root_dir f, f, sz) | root_dir f sz.
         (root_dir, f) \<in> entries w
         \<and> lower (snd (os_path_splitext f)) \<in> set SUPPORTED_EXTENSIONS
         \<and> getsize (os_path_join root_dir f) = Inr sz}" for w
    unfolding walk_loop_set entries_def by auto blast+
  show ?thesis
  proof (cases mount_point)
    case None
    then show ?thesis by (simp add: iPhoneBackup_find_media_files_def)
  next
    case (Some mp)
    with assms(2) have d: "dcim_path = os_path_join mp ''DCIM''" by simp
    from assms(1) have "entries (os_walk (os_path_join mp ''DCIM''))
        = entries (os_walk' (os_path_join mp ''DCIM''))"
      unfolding d entries_def .
    then have "set (walk_loop getsize (os_walk (os_path_join mp ''DCIM'')) [])
        = set (walk_loop getsize (os_walk' (os_path_join mp ''DCIM'')) [])"
      unfolding wl by simp
    then show ?thesis
      by (simp add: Some iPhoneBackup_find_media_files_def Let_def)
  qed
qed

lemma Android_find_same_entries:
  assumes "set (split_lines (strip reply)) = set (split_lines (strip reply'))"
  shows "set (AndroidBackup_find_media_files (Completed rc reply) adb_stat)
       = set (AndroidBackup_find_media_files (Completed rc reply') adb_stat)"
proof (cases "rc = 0")
  case False
  then show ?thesis by (simp add: AndroidBackup_find_media_files_def)
next
  case True
  let ?l = "split_lines (strip reply)" and ?l' = "split_lines (strip reply')"
  show ?thesis
  proof (cases "stat_loop adb_stat ?l []")
    case None
    then have "stat_loop adb_stat ?l' [] = None"
      using assms by (simp add: stat_loop_None)
    with None True show ?thesis by (simp add: AndroidBackup_find_media_files_def Let_def)
  next
    case (Some found)
    then have "stat_loop adb_stat ?l [] \<noteq> None" by simp
    then have "stat_loop adb_stat ?l' [] \<noteq> None"
      unfolding stat_loop_None assms .
    then obtain found' where f': "stat_loop adb_stat ?l' [] = Some found'" by auto
    from stat_loop_set [OF Some] stat_loop_set [OF f'] assms
    have "set found = set found'" by simp
    with Some f' True show ?thesis
      by (simp add: AndroidBackup_find_media_files_def Let_def)
  qed
qed


text \<open>
  Claim C3, as amended. The list that \<^verbatim>\<open>find_media_files\<close> returns is in ascending
  order of the file names, for both classes and whatever the walk of the mounted device
  or the \<^verbatim>\<open>find\<close> on the remote shell listed, in whatever order. The order is strict, and
  the list does not depend on the order of the listing, when no two files of the list
  have the same name: two walks that list the same files in the same folders, or two
  replies of \<^verbatim>\<open>find\<close> with the same lines, then give the same list. (The sort is by the
  name alone and stable: files of the same name in different folders are all kept, next
  to each other, in the order of the listing.)
\<close>

theorem catalog_sorted:
  "sorted (map (\<lambda>(source_path, file_name, sz). file_name)
             (iPhoneBackup_find_media_files mount_point exists os_walk getsize))
   \<and> sorted (map (\<lambda>(source_path, file_name, sz). file_name)
               (AndroidBackup_find_media_files adb_find adb_stat))
   \<and> (distinct (map (\<lambda>(source_path, file_name, sz). file_name)
                  (iPhoneBackup_find_media_files mount_point exists os_walk getsize)) \<longrightarrow>
        sorted_wrt (<) (map (\<lambda>(source_path, file_name, sz). file_name)
                         (iPhoneBackup_find_media_files mount_point exists os_walk getsize)))
   \<and> (distinct (map (\<lambda>(source_path, file_name, sz). file_name)
                  (AndroidBackup_find_media_files adb_find adb_stat)) \<longrightarrow>
        sorted_wrt (<) (map (\<lambda>(source_path, file_name, sz). file_name)
                         (AndroidBackup_find_media_files adb_find adb_stat)))
   \<and> ({(root_dir, f). \<exists>dirs files.
          (root_dir, dirs, files) \<in> set (os_walk (os_path_join mp ''DCIM'')) \<and> f \<in> set files}
        = {(root_dir, f). \<exists>dirs files.
          (root_dir, dirs, files) \<in> set (os_walk' (os_path_join mp ''DCIM'')) \<and> f \<in> set files}
        \<and> distinct (map (\<lambda>(source_path, file_name, sz). file_name)
                      (iPhoneBackup_find_media_files (Some mp) exists os_walk getsize))
        \<and> distinct (map (\<lambda>(source_path, file_name, sz). file_name)
                      (iPhoneBackup_find_media_files (Some mp) exists os_walk' getsize)) \<longrightarrow>
        iPhoneBackup_find_media_files (Some mp) exists os_walk getsize
        = iPhoneBackup_find_media_files (Some mp) exists os_walk' getsize)
   \<and> (set (split_lines (strip reply)) = set (split_lines (strip reply'))
        \<and> distinct (map (\<lambda>(source_path, file_name, sz). file_name)
                      (AndroidBackup_find_media_files (Completed rc reply) adb_stat))
        \<and> distinct (map (\<lambda>(source_path, file_name, sz). file_name)
                      (AndroidBackup_find_media_files (Completed rc reply') adb_stat)) \<longrightarrow>
        AndroidBackup_find_media_files (Completed rc reply) adb_stat
        = AndroidBackup_find_media_files (Completed rc reply') adb_stat)"
  unfolding name_selector
proof (intro conjI impI)
  show "sorted (map (\<lambda>x. fst (snd x))
             (iPhoneBackup_find_media_files mount_point exists os_walk getsize))"
    by (rule find_sorted)
  show "sorted (map (\<lambda>x. fst (snd x)) (AndroidBackup_find_media_files adb_find adb_stat))"
    by (rule find_sorted)
next
  assume "distinct (map (\<lambda>x. fst (snd x))
             (iPhoneBackup_find_media_files mount_point exists os_walk getsize))"
  then show "sorted_wrt (<) (map (\<lambda>x. fst (snd x))
             (iPhoneBackup_find_media_files mount_point exists os_walk getsize))"
    using find_sorted(1) [of mount_point exists os_walk getsize]
    by (simp only: strict_sorted_iff)
next
  assume "distinct (map (\<lambda>x. fst (snd x)) (AndroidBackup_find_media_files adb_find adb_stat))"
  then show "sorted_wrt (<) (map (\<lambda>x. fst (snd x))
             (AndroidBackup_find_media_files adb_find adb_stat))"
    using find_sorted(2) [of adb_find adb_stat]
    by (simp only: strict_sorted_iff)
next
  assume h: "{(root_dir, f). \<exists>dirs files.
          (root_dir, dirs, files) \<in> set (os_walk (os_path_join mp ''DCIM'')) \<and> f \<in> set files}
        = {(root_dir, f). \<exists>dirs files.
          (root_dir, dirs, files) \<in> set (os_walk' (os_path_join mp ''DCIM'')) \<and> f \<in> set files}
        \<and> distinct (map (\<lambda>x. fst (snd x))
                      (iPhoneBackup_find_media_files (Some mp) exists os_walk getsize))
        \<and> distinct (map (\<lambda>x. fst (snd x))
                      (iPhoneBackup_find_media_files (Some mp) exists os_walk' getsize))"
  from h have "set (iPhoneBackup_find_media_files (Some mp) exists os_walk getsize)
       = set (iPhoneBackup_find_media_files (Some mp) exists os_walk' getsize)"
    by (intro iPhone_find_same_entries [where dcim_path = "os_path_join mp ''DCIM''"]) simp_all
  with h show "iPhoneBackup_find_media_files (Some mp) exists os_walk getsize
        = iPhoneBackup_find_media_files (Some mp) exists os_walk' getsize"
    by (intro sorted_distinct_catalog_unique find_sorted) simp_all
next
  assume h: "set (split_lines (strip reply)) = set (split_lines (strip reply'))
        \<and> distinct (map (\<lambda>x. fst (snd x))
                      (AndroidBackup_find_media_files (Completed rc reply) adb_stat))
        \<and> distinct (map (\<lambda>x. fst (snd x))
                      (AndroidBackup_find_media_files (Completed rc reply') adb_stat))"
  from h have "set (AndroidBackup_find_media_files (Completed rc reply) adb_stat)
       = set (AndroidBackup_find_media_files (Completed rc reply') adb_stat)"
    by (intro Android_find_same_entries) simp
  with h show "AndroidBackup_find_media_files (Completed rc reply) adb_stat
        = AndroidBackup_find_media_files (Completed rc reply') adb_stat"
    by (intro sorted_distinct_catalog_unique find_sorted) simp_all
qed

text \<open>
  The claim as first stated fails when two folders hold a picture of the same name: the
  names are not strictly ascending, and the two orders of the walk give two different
  lists.
\<close>

theorem catalog_sorted_counterexample:
  "set (example_walk_same_name ''/m/DCIM'') = set (example_walk_same_name_reversed ''/m/DCIM'')
   \<and> iPhoneBackup_find_media_files (Some ''/m'') example_exists example_walk_same_name
        example_getsize_one
      = [(''/m/DCIM/100APPLE/IMG_0001.JPG'', ''IMG_0001.JPG'', 1),
         (''/m/DCIM/101APPLE/IMG_0001.JPG'', ''IMG_0001.JPG'', 1)]
   \<and> iPhoneBackup_find_media_files (Some ''/m'') example_exists example_walk_same_name_reversed
        example_getsize_one
      = [(''/m/DCIM/101APPLE/IMG_0001.JPG'', ''IMG_0001.JPG'', 1),
         (''/m/DCIM/100APPLE/IMG_0001.JPG'', ''IMG_0001.JPG'', 1)]
   \<and> \<not> sorted_wrt (<) (map (fst \<circ> snd)
          (iPhoneBackup_find_media_files (Some ''/m'') example_exists example_walk_same_name
             example_getsize_one))"
proof -
  have s: "set (example_walk_same_name ''/m/DCIM'')
      = set (example_walk_same_name_reversed ''/m/DCIM'')"
    by (simp add: example_walk_same_name_reversed_def)
  have a: "iPhoneBackup_find_media_files (Some ''/m'') example_exists example_walk_same_name
        example_getsize_one
      = [(''/m/DCIM/100APPLE/IMG_0001.JPG'', ''IMG_0001.JPG'', 1),
         (''/m/DCIM/101APPLE/IMG_0001.JPG'', ''IMG_0001.JPG'', 1)]"
    by code_simp
  have b: "iPhoneBackup_find_media_files (Some ''/m'') example_exists
        example_walk_same_name_reversed example_getsize_one
      = [(''/m/DCIM/101APPLE/IMG_0001.JPG'', ''IMG_0001.JPG'', 1),
         (''/m/DCIM/100APPLE/IMG_0001.JPG'', ''IMG_0001.JPG'', 1)]"
    by code_simp
  have c: "\<not> sorted_wrt (<) (map (fst \<circ> snd)
          (iPhoneBackup_find_media_files (Some ''/m'') example_exists example_walk_same_name
             example_getsize_one))"
    unfolding a by simp
  from s a b c show ?thesis by blast
qed

text \<open>
  A listing of \<^verbatim>\<open>b.mp4\<close> before \<^verbatim>\<open>a.mov\<close> gives the catalog with \<^verbatim>\<open>a.mov\<close> first, on
  the mounted device and on the remote shell, and so does the listing in the other order.
\<close>

theorem catalog_sorted_witness:
  "iPhoneBackup_find_media_files (Some ''/m'') (\<lambda>path. True)
     (\<lambda>dcim_path. [(dcim_path, [], [''b.mp4'', ''a.mov''])]) (\<lambda>path. Inr 100)
   = [(''/m/DCIM/a.mov'', ''a.mov'', 100), (''/m/DCIM/b.mp4'', ''b.mp4'', 100)]
   \<and> iPhoneBackup_find_media_files (Some ''/m'') (\<lambda>path. True)
     (\<lambda>dcim_path. [(dcim_path, [], [''a.mov'', ''b.mp4''])]) (\<lambda>path. Inr 100)
   = iPhoneBackup_find_media_files (Some ''/m'') (\<lambda>path. True)
     (\<lambda>dcim_path. [(dcim_path, [], [''b.mp4'', ''a.mov''])]) (\<lambda>path. Inr 100)
   \<and> AndroidBackup_find_media_files
       (Completed 0 ''/sdcard/DCIM/b.mp4\<newline>/sdcard/DCIM/a.mov\<newline>'')
       (\<lambda>path. Completed 0 ''100\<newline>'')
   = [(''/sdcard/DCIM/a.mov'', ''a.mov'', 100), (''/sdcard/DCIM/b.mp4'', ''b.mp4'', 100)]
   \<and> AndroidBackup_find_media_files
       (Completed 0 ''/sdcard/DCIM/a.mov\<newline>/sdcard/DCIM/b.mp4\<newline>'')
       (\<lambda>path. Completed 0 ''100\<newline>'')
   = AndroidBackup_find_media_files
       (Completed 0 ''/sdcard/DCIM/b.mp4\<newline>/sdcard/DCIM/a.mov\<newline>'')
       (\<lambda>path. Completed 0 ''100\<newline>'')
   \<and> sorted_wrt (<) [''a.mov'', ''b.mp4'']"
proof -
  let ?w = "\<lambda>dcim_path :: string. [(dcim_path, [] :: string list, [''b.mp4'', ''a.mov''])]"
  let ?w' = "\<lambda>dcim_path :: string. [(dcim_path, [] :: string list, [''a.mov'', ''b.mp4''])]"
  let ?r = "''/sdcard/DCIM/b.mp4\<newline>/sdcard/DCIM/a.mov\<newline>''"
  let ?r' = "''/sdcard/DCIM/a.mov\<newline>/sdcard/DCIM/b.mp4\<newline>''"
  have i: "iPhoneBackup_find_media_files (Some ''/m'') (\<lambda>path. True) ?w (\<lambda>path. Inr 100)
   = [(''/m/DCIM/a.mov'', ''a.mov'', 100), (''/m/DCIM/b.mp4'', ''b.mp4'', 100)]"
    by code_simp
  have i': "iPhoneBackup_find_media_files (Some ''/m'') (\<lambda>path. True) ?w' (\<lambda>path. Inr 100)
   = [(''/m/DCIM/a.mov'', ''a.mov'', 100), (''/m/DCIM/b.mp4'', ''b.mp4'', 100)]"
    by code_simp
  have a: "AndroidBackup_find_media_files (Completed 0 ?r) (\<lambda>path. Completed 0 ''100\<newline>'')
   = [(''/sdcard/DCIM/a.mov'', ''a.mov'', 100), (''/sdcard/DCIM/b.mp4'', ''b.mp4'', 100)]"
    by code_simp
  have a': "AndroidBackup_find_media_files (Completed 0 ?r') (\<lambda>path. Completed 0 ''100\<newline>'')
   = [(''/sdcard/DCIM/a.mov'', ''a.mov'', 100), (''/sdcard/DCIM/b.mp4'', ''b.mp4'', 100)]"
    by code_simp
  have entries: "{(root_dir, f). \<exists>dirs files.
          (root_dir, dirs, files) \<in> set (?w' (os_path_join ''/m'' ''DCIM'')) \<and> f \<in> set files}
        = {(root_dir, f). \<exists>dirs files.
          (root_dir, dirs, files) \<in> set (?w (os_path_join ''/m'' ''DCIM'')) \<and> f \<in> set files}"
    by auto
  have l: "split_lines (strip ?r) = [''/sdcard/DCIM/b.mp4'', ''/sdcard/DCIM/a.mov'']"
    by code_simp
  have l': "split_lines (strip ?r') = [''/sdcard/DCIM/a.mov'', ''/sdcard/DCIM/b.mp4'']"
    by code_simp
  have lines: "set (split_lines (strip ?r')) = set (split_lines (strip ?r))"
    unfolding l l' by auto
  note inst = catalog_sorted [where mount_point = "Some ''/m''" and exists = "\<lambda>path. True"
      and os_walk = ?w' and os_walk' = ?w and getsize = "\<lambda>path. Inr 100" and mp = "''/m''"
      and adb_find = "Completed 0 ?r" and adb_stat = "\<lambda>path. Completed 0 ''100\<newline>''"
      and rc = 0 and reply = ?r' and reply' = ?r]
  have di: "distinct (map (\<lambda>(source_path, file_name, sz). file_name)
      (iPhoneBackup_find_media_files (Some ''/m'') (\<lambda>path. True) ?w (\<lambda>path. Inr 100)))"
    unfolding i by simp
  have di': "distinct (map (\<lambda>(source_path, file_name, sz). file_name)
      (iPhoneBackup_find_media_files (Some ''/m'') (\<lambda>path. True) ?w' (\<lambda>path. Inr 100)))"
    unfolding i' by simp
  have da: "distinct (map (\<lambda>(source_path, file_name, sz). file_name)
      (AndroidBackup_find_media_files (Completed 0 ?r) (\<lambda>path. Completed 0 ''100\<newline>'')))"
    unfolding a by simp
  have da': "distinct (map (\<lambda>(source_path, file_name, sz). file_name)
      (AndroidBackup_find_media_files (Completed 0 ?r') (\<lambda>path. Completed 0 ''100\<newline>'')))"
    unfolding a' by simp
  from inst [THEN conjunct2, THEN conjunct2, THEN conjunct2, THEN conjunct1, THEN mp, OF da]
  have strict: "sorted_wrt (<) [''a.mov'', ''b.mp4'']"
    unfolding a by simp
  note same_i = inst [THEN conjunct2, THEN conjunct2, THEN conjunct2, THEN conjunct2,
      THEN conjunct1, THEN mp, OF conjI [OF entries conjI [OF di' di]]]
  note same_a = inst [THEN conjunct2, THEN conjunct2, THEN conjunct2, THEN conjunct2,
      THEN conjunct2, THEN mp, OF conjI [OF lines conjI [OF da' da]]]
  from i a strict same_i same_a show ?thesis by blast
qed

subsection \<open>Files whose size cannot be read\<close>

text \<open>
  On the mounted device, a listed file with a supported extension is in the catalog
  exactly when \<^verbatim>\<open>os.path.getsize\<close> returns its size: a file whose size cannot be read
  (\<^verbatim>\<open>OSError\<close>) is left out and every other file stays in. On the remote shell, as long
  as every \<^verbatim>\<open>stat\<close> command that is run completes, a listed file with a supported
  extension is in the catalog exactly when its \<^verbatim>\<open>stat\<close> exits with status 0 and prints
  a number: a file whose \<^verbatim>\<open>stat\<close> fails or prints something else is left out and every
  other file stays in.
\<close>

lemma unreadable_size_left_out:
  "(mount_point = Some mp \<and> mp \<noteq> [] \<and> exists (os_path_join mp ''DCIM'') \<longrightarrow>
      ((source_path, file_name, sz)
         \<in> set (iPhoneBackup_find_media_files mount_point exists os_walk getsize)
       \<longleftrightarrow> (\<exists>(root_dir, dirs, files) \<in> set (os_walk (os_path_join mp ''DCIM'')).
              file_name \<in> set files
              \<and> lower (snd (os_path_splitext file_name)) \<in> set SUPPORTED_EXTENSIONS
              \<and> source_path = os_path_join root_dir file_name
              \<and> getsize source_path = Inr sz)))
   \<and> (adb_find = Completed 0 listing
        \<and> (\<forall>line \<in> set (split_lines (strip listing)).
              strip line \<noteq> []
              \<and> lower (snd (os_path_splitext (os_path_basename (strip line))))
                  \<in> set SUPPORTED_EXTENSIONS
              \<longrightarrow> adb_stat (strip line) \<noteq> Raised_exception) \<longrightarrow>
      ((source_path, file_name, sz)
         \<in> set (AndroidBackup_find_media_files adb_find adb_stat)
       \<longleftrightarrow> (\<exists>line \<in> set (split_lines (strip listing)).
              source_path = strip line \<and> source_path \<noteq> []
              \<and> file_name = os_path_basename source_path
              \<and> lower (snd (os_path_splitext file_name)) \<in> set SUPPORTED_EXTENSIONS
              \<and> (\<exists>reply. adb_stat source_path = Completed 0 reply
                          \<and> py_int (strip reply) = Inr sz))))"
proof (intro conjI impI)
  assume "mount_point = Some mp \<and> mp \<noteq> [] \<and> exists (os_path_join mp ''DCIM'')"
  then have "set (iPhoneBackup_find_media_files mount_point exists os_walk getsize) =
     {(os_path_join root_dir f, f, sz) | root_dir dirs files f sz.
        (root_dir, dirs, files) \<in> set (os_walk (os_path_join mp ''DCIM''))
        \<and> f \<in> set files \<and> lower (snd (os_path_splitext f)) \<in> set SUPPORTED_EXTENSIONS
        \<and> getsize (os_path_join root_dir f) = Inr sz}"
    by (intro iPhone_find_set) auto
  then show "(source_path, file_name, sz)
         \<in> set (iPhoneBackup_find_media_files mount_point exists os_walk getsize)
       \<longleftrightarrow> (\<exists>(root_dir, dirs, files) \<in> set (os_walk (os_path_join mp ''DCIM'')).
              file_name \<in> set files
              \<and> lower (snd (os_path_splitext file_name)) \<in> set SUPPORTED_EXTENSIONS
              \<and> source_path = os_path_join root_dir file_name
              \<and> getsize source_path = Inr sz)"
    by auto
next
  assume a: "adb_find = Completed 0 listing
        \<and> (\<forall>line \<in> set (split_lines (strip listing)).
              strip line \<noteq> []
              \<and> lower (snd (os_path_splitext (os_path_basename (strip line))))
                  \<in> set SUPPORTED_EXTENSIONS
              \<longrightarrow> adb_stat (strip line) \<noteq> Raised_exception)"
  then have "stat_loop adb_stat (split_lines (strip listing)) [] \<noteq> None"
    by (auto simp: stat_loop_None)
  then obtain found
    where loop: "stat_loop adb_stat (split_lines (strip listing)) [] = Some found"
    by auto
  with a have "set (AndroidBackup_find_media_files adb_find adb_stat) = set found"
    by (simp add: AndroidBackup_find_media_files_def Let_def)
  then show "(source_path, file_name, sz)
         \<in> set (AndroidBackup_find_media_files adb_find adb_stat)
       \<longleftrightarrow> (\<exists>line \<in> set (split_lines (strip listing)).
              source_path = strip line \<and> source_path \<noteq> []
              \<and> file_name = os_path_basename source_path
              \<and> lower (snd (os_path_splitext file_name)) \<in> set SUPPORTED_EXTENSIONS
              \<and> (\<exists>reply. adb_stat source_path = Completed 0 reply
                          \<and> py_int (strip reply) = Inr sz))"
    unfolding stat_loop_set [OF loop] by auto
qed

text \<open>
  When the run of one \<^verbatim>\<open>stat\<close> command raises (its timeout of five seconds expires, or
  \<^verbatim>\<open>adb\<close> cannot be started), the exception is not handled at the file: it reaches the
  handler around the whole function, and the catalog is empty whatever the other files
  are.
\<close>

lemma stat_raise_empties_catalog:
  assumes "adb_find = Completed 0 listing"
    and "line \<in> set (split_lines (strip listing))"
    and "strip line \<noteq> []"
    and "lower (snd (os_path_splitext (os_path_basename (strip line)))) \<in> set SUPPORTED_EXTENSIONS"
    and "adb_stat (strip line) = Raised_exception"
  shows "AndroidBackup_find_media_files adb_find adb_stat = []"
proof -
  from assms(2-5) have "stat_loop adb_stat (split_lines (strip listing)) [] = None"
    unfolding stat_loop_None by blast
  with assms(1) show ?thesis
    by (simp add: AndroidBackup_find_media_files_def Let_def)
qed

text \<open>
  Claim C9. A file whose size cannot be read is to be left out of the catalog while the
  scan goes on over the other files: one such file never ends the whole enumeration. The
  program does not meet this on the remote shell. The shell lists \<^verbatim>\<open>a.jpg\<close>, \<^verbatim>\<open>b.jpg\<close>
  and \<^verbatim>\<open>c.jpg\<close>; the \<^verbatim>\<open>stat\<close> of \<^verbatim>\<open>a.jpg\<close> does not complete, the two others print the
  size 7. The catalog is empty, although the sizes of \<^verbatim>\<open>b.jpg\<close> and \<^verbatim>\<open>c.jpg\<close> can be
  read. When the \<^verbatim>\<open>stat\<close> of \<^verbatim>\<open>a.jpg\<close> completes with an error status instead (and
  \<^verbatim>\<open>b.jpg\<close> prints no number), the scan goes on and \<^verbatim>\<open>c.jpg\<close> is in the catalog.
\<close>

theorem enumeration_aborted_by_stat_timeout:
  "split_lines (strip example_listing)
     = [''/sdcard/DCIM/a.jpg'', ''/sdcard/DCIM/b.jpg'', ''/sdcard/DCIM/c.jpg'']
   \<and> example_stat_timeout ''/sdcard/DCIM/a.jpg'' = Raised_exception
   \<and> example_stat_timeout ''/sdcard/DCIM/b.jpg'' = Completed 0 ''7\<newline>''
   \<and> example_stat_timeout ''/sdcard/DCIM/c.jpg'' = Completed 0 ''7\<newline>''
   \<and> py_int (strip ''7\<newline>'') = Inr 7
   \<and> AndroidBackup_find_media_files (Completed 0 example_listing) example_stat_timeout = []
   \<and> AndroidBackup_find_media_files (Completed 0 example_listing) example_stat
       = [(''/sdcard/DCIM/c.jpg'', ''c.jpg'', 7)]"
proof (intro conjI)
  show "split_lines (strip example_listing)
     = [''/sdcard/DCIM/a.jpg'', ''/sdcard/DCIM/b.jpg'', ''/sdcard/DCIM/c.jpg'']"
    by code_simp
  show "example_stat_timeout ''/sdcard/DCIM/a.jpg'' = Raised_exception"
    by code_simp
  show "example_stat_timeout ''/sdcard/DCIM/b.jpg'' = Completed 0 ''7\<newline>''"
    by code_simp
  show "example_stat_timeout ''/sdcard/DCIM/c.jpg'' = Completed 0 ''7\<newline>''"
    by code_simp
  show "py_int (strip ''7\<newline>'') = Inr 7"
    by code_simp
  show "AndroidBackup_find_media_files (Completed 0 example_listing) example_stat_timeout = []"
    by code_simp
  show "AndroidBackup_find_media_files (Completed 0 example_listing) example_stat
       = [(''/sdcard/DCIM/c.jpg'', ''c.jpg'', 7)]"
    by code_simp
qed

subsection \<open>A failed copy\<close>

lemma copy_loop_calls:
  "\<not> interrupted (copy_loop backup destination total_files es t) \<Longrightarrow>
   \<exists>more. outcomes (copy_loop backup destination total_files es t) = outcomes t @ more
     \<and> length more = length es
     \<and> fetch_calls (copy_loop backup destination total_files es t)
         = fetch_calls t
           @ map (\<lambda>((source_path, file_name, sz), oc).
                    (source_path, os_path_join destination file_name))
               (filter (\<lambda>(x, oc). \<not> is_Skipped oc) (zip (map snd es) more))"
proof (induction es arbitrary: t)
  case Nil
  then show ?case by simp
next
  case (Cons x es)
  obtain idx source_path file_name sz where x: "x = (idx, source_path, file_name, sz)"
    by (cases x) auto
  let ?d = "os_path_join destination file_name"
  let ?call = "\<lambda>((source_path, file_name, sz), oc).
                    (source_path, os_path_join destination file_name)"
  show ?case
  proof (cases "dest_fs t ?d = Some sz")
    case True
    let ?t = "t\<lparr>outcomes := outcomes t @ [Skipped file_name idx total_files]\<rparr>"
    from True have step: "copy_loop backup destination total_files (x # es) t
        = copy_loop backup destination total_files es ?t"
      by (simp add: x size_check)
    with Cons.prems have "\<not> interrupted (copy_loop backup destination total_files es ?t)"
      by simp
    from Cons.IH [OF this] obtain more
      where m: "outcomes (copy_loop backup destination total_files es ?t) = outcomes ?t @ more"
        "length more = length es"
        "fetch_calls (copy_loop backup destination total_files es ?t)
         = fetch_calls ?t @ map ?call (filter (\<lambda>(x, oc). \<not> is_Skipped oc) (zip (map snd es) more))"
      by blast
    show ?thesis
      unfolding step
      by (rule exI [of _ "Skipped file_name idx total_files # more"]) (simp add: m x)
  next
    case False
    obtain r fs' where r: "try_copy backup idx total_files (source_path, file_name, sz) ?d
        (dest_fs t) = (r, fs')"
      by (cases "try_copy backup idx total_files (source_path, file_name, sz) ?d (dest_fs t)")
    show ?thesis
    proof (cases r)
      case None
      with False r Cons.prems show ?thesis
        by (simp add: x size_check)
    next
      case (Some oc)
      let ?t = "t\<lparr>outcomes := outcomes t @ [oc],
                   fetch_calls := fetch_calls t @ [(source_path, ?d)], dest_fs := fs'\<rparr>"
      from False r Some have step: "copy_loop backup destination total_files (x # es) t
          = copy_loop backup destination total_files es ?t"
        by (simp add: x size_check)
      from try_copy_outcome [OF r [unfolded Some]] have oc: "\<not> is_Skipped oc"
        by (cases oc) auto
      from step Cons.prems have "\<not> interrupted (copy_loop backup destination total_files es ?t)"
        by simp
      from Cons.IH [OF this] obtain more
        where m: "outcomes (copy_loop backup destination total_files es ?t) = outcomes ?t @ more"
          "length more = length es"
          "fetch_calls (copy_loop backup destination total_files es ?t)
           = fetch_calls ?t @ map ?call (filter (\<lambda>(x, oc). \<not> is_Skipped oc) (zip (map snd es) more))"
        by blast
      show ?thesis
        unfolding step
        by (rule exI [of _ "oc # more"]) (simp add: m x oc)
    qed
  qed
qed

lemma copy_files_calls:
  assumes "\<not> interrupted (copy_files backup destination files fs)"
  shows "length (outcomes (copy_files backup destination files fs)) = length files"
    and "fetch_calls (copy_files backup destination files fs)
       = map (\<lambda>((source_path, file_name, sz), oc).
                (source_path, os_path_join destination file_name))
           (filter (\<lambda>(x, oc). \<not> is_Skipped oc)
              (zip files (outcomes (copy_files backup destination files fs))))"
proof -
  let ?t = "\<lparr>outcomes = [], fetch_calls = [], dest_fs = fs, interrupted = False\<rparr>"
  from assms have "\<not> interrupted (copy_loop backup destination (length files)
      (enumerate 1 files) ?t)"
    by (simp add: copy_files_def)
  from copy_loop_calls [OF this]
  show "length (outcomes (copy_files backup destination files fs)) = length files"
    and "fetch_calls (copy_files backup destination files fs)
       = map (\<lambda>((source_path, file_name, sz), oc).
                (source_path, os_path_join destination file_name))
           (filter (\<lambda>(x, oc). \<not> is_Skipped oc)
              (zip files (outcomes (copy_files backup destination files fs))))"
    by (auto simp: copy_files_def)
qed

lemma copy_files_at:
  assumes at: "i < length (outcomes (copy_files backup destination files fs))"
    and entry: "files ! i = (source_path, file_name, sz)"
    and before: "before = copy_loop backup destination (length files)
        (take i (enumerate 1 files))
        \<lparr>outcomes = [], fetch_calls = [], dest_fs = fs, interrupted = False\<rparr>"
    and after: "after = copy_loop backup destination (length files)
        (take (Suc i) (enumerate 1 files))
        \<lparr>outcomes = [], fetch_calls = [], dest_fs = fs, interrupted = False\<rparr>"
  shows "i < length files"
    and "\<not> interrupted before"
    and "dest_fs before (os_path_join destination file_name) = Some sz \<Longrightarrow>
         outcomes (copy_files backup destination files fs) ! i
           = Skipped file_name (Suc i) (length files)
         \<and> fetch_calls after = fetch_calls before \<and> dest_fs after = dest_fs before"
    and "dest_fs before (os_path_join destination file_name) \<noteq> Some sz \<Longrightarrow>
         try_copy backup (Suc i) (length files) (source_path, file_name, sz)
           (os_path_join destination file_name) (dest_fs before)
           = (Some (outcomes (copy_files backup destination files fs) ! i), dest_fs after)
         \<and> fetch_calls after
             = fetch_calls before @ [(source_path, os_path_join destination file_name)]"
proof -
  define init :: transfer
    where "init = \<lparr>outcomes = [], fetch_calls = [], dest_fs = fs, interrupted = False\<rparr>"
  define es where "es = enumerate 1 files"
  define rest where "rest = drop (Suc i) es"
  define n where "n = length files"
  let ?d = "os_path_join destination file_name"
  let ?x = "(Suc i, source_path, file_name, sz)"
  let ?final = "copy_files backup destination files fs"
  have init: "\<not> interrupted init" "outcomes init = []"
    by (simp_all add: init_def)
  have before': "before = copy_loop backup destination n (take i es) init"
    by (simp add: before es_def init_def n_def)
  have after': "after = copy_loop backup destination n (take (Suc i) es) init"
    by (simp add: after es_def init_def n_def)
  have files': "?final = copy_loop backup destination n es init"
    by (simp add: copy_files_def es_def init_def n_def)
  have len_es: "length es = length files"
    by (simp add: es_def)
  from copy_loop_outcomes [OF init(1), of backup destination n es]
  have "length (outcomes ?final) \<le> length es"
    unfolding files' [symmetric] init(2) by (auto split: if_splits)
  with at len_es show i: "i < length files" by simp
  have "es ! i = ?x"
    using i entry by (simp add: es_def nth_enumerate_eq)
  with i len_es have es: "es = take i es @ ?x # rest"
    unfolding rest_def by (metis id_take_nth_drop)
  from \<open>es ! i = ?x\<close> i len_es have take_Suc: "take (Suc i) es = take i es @ [?x]"
    by (simp add: take_Suc_conv_app_nth)
  have len_take: "length (take i es) = i"
    using i len_es by simp
  from copy_loop_outcomes [OF init(1), of backup destination n "take i es"]
  have len: "if interrupted before then length (outcomes before) < i
             else length (outcomes before) = i"
    unfolding before' [symmetric] init(2) len_take by auto
  have full: "?final =
      (if interrupted before then before
       else copy_loop backup destination n (?x # rest) before)"
    unfolding files' before'
    using copy_loop_append [OF init(1), of backup destination n "take i es" "?x # rest"] es
    by simp
  show running: "\<not> interrupted before"
  proof
    assume "interrupted before"
    with full len at show False by simp
  qed
  with len have l: "length (outcomes before) = i" by simp
  have step: "after = copy_loop backup destination n [?x] before"
    unfolding after' take_Suc before'
    using copy_loop_append [OF init(1), of backup destination n "take i es" "[?x]"] running
    by (simp add: before')
  from running full have "?final = copy_loop backup destination n ([?x] @ rest) before"
    by simp
  with copy_loop_append [OF running, of backup destination n "[?x]" rest]
  have f: "?final = (if interrupted after then after
                     else copy_loop backup destination n rest after)"
    by (simp add: step)
  from copy_loop_outcomes [OF running, of backup destination n "[?x]"]
  have "\<exists>more. outcomes after = outcomes before @ more
      \<and> (if interrupted after then length more < 1 else length more = 1)"
    unfolding step [symmetric] by (auto split: if_splits)
  then obtain more where more: "outcomes after = outcomes before @ more"
      "if interrupted after then length more < 1 else length more = 1"
    by blast
  have running': "\<not> interrupted after"
  proof
    assume "interrupted after"
    with f more l at show False by simp
  qed
  with more(2) obtain oc where oc: "more = [oc]"
    by (cases more) auto
  from running' f have "?final = copy_loop backup destination n rest after" by simp
  with copy_loop_outcomes [OF running', of backup destination n rest]
  obtain more' where "outcomes ?final = outcomes after @ more'" by auto
  with more(1) oc l have nth: "outcomes ?final ! i = oc"
    by (simp add: nth_append)
  {
    assume present: "dest_fs before ?d = Some sz"
    then have "after = before\<lparr>outcomes := outcomes before @ [Skipped file_name (Suc i) n]\<rparr>"
      unfolding step by (simp add: size_check)
    with more(1) oc nth
    show "outcomes ?final ! i = Skipped file_name (Suc i) (length files)
         \<and> fetch_calls after = fetch_calls before \<and> dest_fs after = dest_fs before"
      by (simp add: n_def)
  }
  {
    assume absent: "dest_fs before ?d \<noteq> Some sz"
    obtain r fs' where r: "try_copy backup (Suc i) n (source_path, file_name, sz) ?d
        (dest_fs before) = (r, fs')"
      by (cases "try_copy backup (Suc i) n (source_path, file_name, sz) ?d (dest_fs before)")
    show "try_copy backup (Suc i) (length files) (source_path, file_name, sz) ?d (dest_fs before)
           = (Some (outcomes ?final ! i), dest_fs after)
         \<and> fetch_calls after = fetch_calls before @ [(source_path, ?d)]"
    proof (cases r)
      case None
      with absent r have "interrupted after"
        unfolding step by (simp add: size_check)
      with running' show ?thesis by simp
    next
      case (Some oc')
      with absent r have "after = before\<lparr>outcomes := outcomes before @ [oc'],
          fetch_calls := fetch_calls before @ [(source_path, ?d)], dest_fs := fs'\<rparr>"
        unfolding step by (simp add: size_check)
      with more(1) oc nth r Some show ?thesis
        by (simp add: n_def)
    qed
  }
qed


text \<open>
  Claim C8. A copy that fails (the transport raises an exception, or \<^verbatim>\<open>adb pull\<close>
  exits with a status other than 0) is reported as \<^verbatim>\<open>Error copying\<close> for that file
  and the loop goes on: unless a call is interrupted from the keyboard, \<^verbatim>\<open>copy_files\<close>
  reports on every media file of the list, in order. There is no retry: the calls of the
  transport are a subsequence of the list of media files, so at most one call for each
  entry, in order. And whenever \<^verbatim>\<open>main\<close> has started the transfer, however it ended
  (failed copies, or an interrupt that kept it from reaching the remaining files),
  \<^verbatim>\<open>verify_files\<close> is run on the full list of media files and puts each of them on one
  of its two lists.

  The loop goes on with the transport, not only with the report. In a run that was not
  interrupted there is one outcome for each media file, and the calls of the transport
  are exactly the media files whose outcome is not \<^verbatim>\<open>Skipped\<close>, each once and in
  order: a file reported as failed has been fetched once, and so has every file after
  it that is not skipped. And for every media file \<open>i\<close> that the run has reported on,
  whatever happened to the files before it (\<open>before\<close> is the transfer after those files,
  \<open>after\<close> the transfer after file \<open>i\<close>): either its destination held its size at
  that moment, and it is skipped without a call; or the transport is called once for it,
  on the backup directory as the files before it left it, and its outcome and the new
  backup directory are what that call gave.
\<close>

theorem fault_isolation:
  "((\<forall>idx total file dest_path fs'.
        fst (try_copy backup idx total file dest_path fs') \<noteq> None) \<longrightarrow>
      map reported (outcomes (copy_files backup destination files fs))
        = map (\<lambda>(source_path, file_name, sz). file_name) files
      \<and> \<not> interrupted (copy_files backup destination files fs))
   \<and> subseq (fetch_calls (copy_files backup destination files fs))
        (map (\<lambda>(source_path, file_name, sz).
                (source_path, os_path_join destination file_name)) files)
   \<and> (shutil_copy2 source_path dest_path fs = (Raised, fs') \<longrightarrow>
        try_copy (iPhoneBackup shutil_copy2 remove) idx total_files
          (source_path, file_name, sz) dest_path fs = (Some (Failed file_name), fs'))
   \<and> (pull source_path dest_path fs = (Raised, fs')
        \<or> (\<exists>rc elapsed. pull source_path dest_path fs = (Returned (rc, elapsed), fs')
              \<and> rc \<noteq> 0) \<longrightarrow>
        try_copy (AndroidBackup pull rm) idx total_files
          (source_path, file_name, sz) dest_path fs = (Some (Failed file_name), fs'))
   \<and> (\<forall>t. transferred (main backup destination stdin media_files shutil_disk_usage fs)
             = Some t \<longrightarrow>
          verification (main backup destination stdin media_files shutil_disk_usage fs)
            = Some (verify_files destination (dest_fs t) media_files)
          \<and> length (fst (verify_files destination (dest_fs t) media_files))
              + length (snd (verify_files destination (dest_fs t) media_files))
              = length media_files)
   \<and> (\<not> interrupted (copy_files backup destination files fs) \<longrightarrow>
        length (outcomes (copy_files backup destination files fs)) = length files
        \<and> fetch_calls (copy_files backup destination files fs)
            = map (\<lambda>((source_path, file_name, sz), oc).
                     (source_path, os_path_join destination file_name))
                (filter (\<lambda>(x, oc). \<not> is_Skipped oc)
                   (zip files (outcomes (copy_files backup destination files fs)))))
   \<and> (i < length (outcomes (copy_files backup destination files fs))
        \<and> files ! i = (source_i, name_i, size_i)
        \<and> before = copy_loop backup destination (length files) (take i (enumerate 1 files))
             \<lparr>outcomes = [], fetch_calls = [], dest_fs = fs, interrupted = False\<rparr>
        \<and> after = copy_loop backup destination (length files) (take (Suc i) (enumerate 1 files))
             \<lparr>outcomes = [], fetch_calls = [], dest_fs = fs, interrupted = False\<rparr> \<longrightarrow>
        i < length files
        \<and> \<not> interrupted before
        \<and> (dest_fs before (os_path_join destination name_i) = Some size_i \<longrightarrow>
             outcomes (copy_files backup destination files fs) ! i
               = Skipped name_i (Suc i) (length files)
             \<and> fetch_calls after = fetch_calls before \<and> dest_fs after = dest_fs before)
        \<and> (dest_fs before (os_path_join destination name_i) \<noteq> Some size_i \<longrightarrow>
             try_copy backup (Suc i) (length files) (source_i, name_i, size_i)
               (os_path_join destination name_i) (dest_fs before)
               = (Some (outcomes (copy_files backup destination files fs) ! i), dest_fs after)
             \<and> fetch_calls after
                 = fetch_calls before @ [(source_i, os_path_join destination name_i)]))"
proof (intro conjI impI allI)
  assume a: "\<forall>idx total file dest_path fs'.
        fst (try_copy backup idx total file dest_path fs') \<noteq> None"
  then show "map reported (outcomes (copy_files backup destination files fs))
        = map (\<lambda>(source_path, file_name, sz). file_name) files"
    by (intro copy_files_reported) blast
  from a show "\<not> interrupted (copy_files backup destination files fs)"
    by (intro copy_files_reported) blast
next
  show "subseq (fetch_calls (copy_files backup destination files fs))
        (map (\<lambda>(source_path, file_name, sz).
                (source_path, os_path_join destination file_name)) files)"
    by (rule copy_files_fetch_calls)
next
  assume "shutil_copy2 source_path dest_path fs = (Raised, fs')"
  then show "try_copy (iPhoneBackup shutil_copy2 remove) idx total_files
          (source_path, file_name, sz) dest_path fs = (Some (Failed file_name), fs')"
    by simp
next
  assume "pull source_path dest_path fs = (Raised, fs')
        \<or> (\<exists>rc elapsed. pull source_path dest_path fs = (Returned (rc, elapsed), fs')
              \<and> rc \<noteq> 0)"
  then show "try_copy (AndroidBackup pull rm) idx total_files
          (source_path, file_name, sz) dest_path fs = (Some (Failed file_name), fs')"
    by auto
next
  fix t
  assume t: "transferred (main backup destination stdin media_files shutil_disk_usage fs)
             = Some t"
  with main_cases [of backup destination stdin media_files shutil_disk_usage fs]
  obtain stdin' where run: "main backup destination stdin media_files shutil_disk_usage fs
           = copy_verify_delete backup destination stdin' media_files fs
               (check_disk_space (shutil_disk_usage destination)
                  (sum_list (map (\<lambda>(source_path, file_name, sz). sz) media_files)))"
    by auto
  from t show "verification (main backup destination stdin media_files shutil_disk_usage fs)
            = Some (verify_files destination (dest_fs t) media_files)"
    unfolding run by (simp add: copy_verify_delete_fields)
  have neg: "(\<lambda>(source_path, file_name, sz).
                 dest_fs t (os_path_join destination file_name) \<noteq> Some sz)
           = (\<lambda>x. \<not> (\<lambda>(source_path :: string, file_name, sz).
                         dest_fs t (os_path_join destination file_name) = Some sz) x)"
    by auto
  show "length (fst (verify_files destination (dest_fs t) media_files))
              + length (snd (verify_files destination (dest_fs t) media_files))
              = length media_files"
    by (simp add: verify_files_filter neg sum_length_filter_compl)
next
  assume ni: "\<not> interrupted (copy_files backup destination files fs)"
  from copy_files_calls(1) [OF ni]
  show "length (outcomes (copy_files backup destination files fs)) = length files" .
  from copy_files_calls(2) [OF ni]
  show "fetch_calls (copy_files backup destination files fs)
            = map (\<lambda>((source_path, file_name, sz), oc).
                     (source_path, os_path_join destination file_name))
                (filter (\<lambda>(x, oc). \<not> is_Skipped oc)
                   (zip files (outcomes (copy_files backup destination files fs))))" .
next
  assume h: "i < length (outcomes (copy_files backup destination files fs))
        \<and> files ! i = (source_i, name_i, size_i)
        \<and> before = copy_loop backup destination (length files) (take i (enumerate 1 files))
             \<lparr>outcomes = [], fetch_calls = [], dest_fs = fs, interrupted = False\<rparr>
        \<and> after = copy_loop backup destination (length files) (take (Suc i) (enumerate 1 files))
             \<lparr>outcomes = [], fetch_calls = [], dest_fs = fs, interrupted = False\<rparr>"
  note at = copy_files_at [where after = after and before = before, OF h [THEN conjunct1]
      h [THEN conjunct2, THEN conjunct1] h [THEN conjunct2, THEN conjunct2, THEN conjunct1]
      h [THEN conjunct2, THEN conjunct2, THEN conjunct2]]
  from at(1) show "i < length files" .
  from at(2) show "\<not> interrupted before" .
  {
    assume "dest_fs before (os_path_join destination name_i) = Some size_i"
    from at(3) [OF this]
    show "outcomes (copy_files backup destination files fs) ! i
               = Skipped name_i (Suc i) (length files)"
      and "fetch_calls after = fetch_calls before" and "dest_fs after = dest_fs before"
      by simp_all
  }
  {
    assume "dest_fs before (os_path_join destination name_i) \<noteq> Some size_i"
    from at(4) [OF this]
    show "try_copy backup (Suc i) (length files) (source_i, name_i, size_i)
               (os_path_join destination name_i) (dest_fs before)
               = (Some (outcomes (copy_files backup destination files fs) ! i), dest_fs after)"
      and "fetch_calls after
                 = fetch_calls before @ [(source_i, os_path_join destination name_i)]"
      by simp_all
  }
qed


text \<open>
  In the example run the copy of the second of three pictures fails: the third one is
  fetched and copied all the same, each picture is fetched once, and the verification
  covers the three of them. In the interrupted run the transfer ends at the second
  picture; the verification still covers all three, the third one among the failed.
\<close>

theorem fault_isolation_witness:
  "outcomes (copy_files example_backup ''/backup'' example_files Map.empty)
     = [Copied ''a.jpg'' 1 3 (5 / 2097152), Failed ''b.jpg'', Copied ''c.jpg'' 3 3 (5 / 2097152)]
   \<and> map reported (outcomes (copy_files example_backup ''/backup'' example_files Map.empty))
       = [''a.jpg'', ''b.jpg'', ''c.jpg'']
   \<and> fetch_calls (copy_files example_backup ''/backup'' example_files Map.empty)
       = [(''/m/DCIM/a.jpg'', ''/backup/a.jpg''), (''/m/DCIM/b.jpg'', ''/backup/b.jpg''),
          (''/m/DCIM/c.jpg'', ''/backup/c.jpg'')]
   \<and> fst (try_copy example_backup 3 3 (''/m/DCIM/c.jpg'', ''c.jpg'', 5) ''/backup/c.jpg''
          (dest_fs (copy_loop example_backup ''/backup'' 3 (take 2 (enumerate 1 example_files))
             \<lparr>outcomes = [], fetch_calls = [], dest_fs = Map.empty, interrupted = False\<rparr>)))
       = Some (outcomes (copy_files example_backup ''/backup'' example_files Map.empty) ! 2)
   \<and> fetch_calls (copy_loop example_backup ''/backup'' 3 (take 3 (enumerate 1 example_files))
        \<lparr>outcomes = [], fetch_calls = [], dest_fs = Map.empty, interrupted = False\<rparr>)
       = fetch_calls (copy_loop example_backup ''/backup'' 3 (take 2 (enumerate 1 example_files))
           \<lparr>outcomes = [], fetch_calls = [], dest_fs = Map.empty, interrupted = False\<rparr>)
         @ [(''/m/DCIM/c.jpg'', ''/backup/c.jpg'')]
   \<and> try_copy example_backup 2 3 (''/m/DCIM/b.jpg'', ''b.jpg'', 5) ''/backup/b.jpg'' Map.empty
       = (Some (Failed ''b.jpg''), Map.empty)
   \<and> try_copy (AndroidBackup (\<lambda>source_path dest_path fs. (Returned (1, 0), fs))
                  (\<lambda>path. Returned 0))
         2 3 (''/sdcard/DCIM/b.jpg'', ''b.jpg'', 5) ''/backup/b.jpg'' Map.empty
       = (Some (Failed ''b.jpg''), Map.empty)
   \<and> verification example_run
       = Some ([''/m/DCIM/a.jpg'', ''/m/DCIM/c.jpg''], [''b.jpg''])
   \<and> map_option outcomes (transferred example_run_interrupted)
       = Some [Copied ''a.jpg'' 1 3 (5 / 2097152)]
   \<and> verification example_run_interrupted
       = Some ([''/m/DCIM/a.jpg''], [''b.jpg'', ''c.jpg''])"
proof -
  define init :: transfer
    where "init = \<lparr>outcomes = [], fetch_calls = [], dest_fs = Map.empty, interrupted = False\<rparr>"
  define before where "before = copy_loop example_backup ''/backup'' (length example_files)
      (take 2 (enumerate 1 example_files)) init"
  define after where "after = copy_loop example_backup ''/backup'' (length example_files)
      (take (Suc 2) (enumerate 1 example_files)) init"
  have never: "\<forall>idx total file dest_path fs'.
        fst (try_copy example_backup idx total file dest_path fs') \<noteq> None"
    by (auto simp: example_backup_def example_copy2_def speed_mbps_eq)
  have names: "map (\<lambda>(source_path, file_name, sz). file_name) example_files
      = [''a.jpg'', ''b.jpg'', ''c.jpg'']"
    by (simp add: example_files_def)
  have len: "length example_files = 3"
    by (simp add: example_files_def)
  note inst = fault_isolation [where backup = example_backup and destination = "''/backup''"
      and files = example_files and fs = Map.empty and i = 2
      and source_i = "''/m/DCIM/c.jpg''" and name_i = "''c.jpg''" and size_i = 5
      and before = before and after = after]
  from inst [THEN conjunct1, THEN mp, OF never]
  have reported: "map reported (outcomes (copy_files example_backup ''/backup'' example_files
      Map.empty)) = [''a.jpg'', ''b.jpg'', ''c.jpg'']"
    and running: "\<not> interrupted (copy_files example_backup ''/backup'' example_files Map.empty)"
    by (simp_all add: names)
  have outs: "outcomes (copy_files example_backup ''/backup'' example_files Map.empty)
     = [Copied ''a.jpg'' 1 3 (5 / 2097152), Failed ''b.jpg'', Copied ''c.jpg'' 3 3 (5 / 2097152)]"
    by code_simp
  have pairs: "map (\<lambda>((source_path, file_name, sz), oc).
                     (source_path, os_path_join ''/backup'' file_name))
                (filter (\<lambda>(x, oc). \<not> is_Skipped oc)
                   (zip example_files
                      [Copied ''a.jpg'' 1 3 (5 / 2097152), Failed ''b.jpg'',
                       Copied ''c.jpg'' 3 3 (5 / 2097152)]))
       = [(''/m/DCIM/a.jpg'', ''/backup/a.jpg''), (''/m/DCIM/b.jpg'', ''/backup/b.jpg''),
          (''/m/DCIM/c.jpg'', ''/backup/c.jpg'')]"
    by code_simp
  from inst [THEN conjunct2, THEN conjunct2, THEN conjunct2, THEN conjunct2, THEN conjunct2,
      THEN conjunct1, THEN mp, OF running]
  have calls: "fetch_calls (copy_files example_backup ''/backup'' example_files Map.empty)
       = [(''/m/DCIM/a.jpg'', ''/backup/a.jpg''), (''/m/DCIM/b.jpg'', ''/backup/b.jpg''),
          (''/m/DCIM/c.jpg'', ''/backup/c.jpg'')]"
    unfolding outs pairs by simp
  have join: "os_path_join ''/backup'' ''c.jpg'' = ''/backup/c.jpg''"
    by code_simp
  have absent: "dest_fs before (os_path_join ''/backup'' ''c.jpg'') \<noteq> Some 5"
    unfolding before_def init_def by code_simp
  have reached: "2 < length (outcomes (copy_files example_backup ''/backup'' example_files
      Map.empty))
        \<and> example_files ! 2 = (''/m/DCIM/c.jpg'', ''c.jpg'', 5)
        \<and> before = copy_loop example_backup ''/backup'' (length example_files)
             (take 2 (enumerate 1 example_files))
             \<lparr>outcomes = [], fetch_calls = [], dest_fs = Map.empty, interrupted = False\<rparr>
        \<and> after = copy_loop example_backup ''/backup'' (length example_files)
             (take (Suc 2) (enumerate 1 example_files))
             \<lparr>outcomes = [], fetch_calls = [], dest_fs = Map.empty, interrupted = False\<rparr>"
    by (simp add: outs before_def after_def init_def) (simp add: example_files_def)
  note at = inst [THEN conjunct2, THEN conjunct2, THEN conjunct2, THEN conjunct2,
      THEN conjunct2, THEN conjunct2, THEN mp, OF reached]
  from at [THEN conjunct2, THEN conjunct2, THEN conjunct2, THEN mp, OF absent]
  have third: "fst (try_copy example_backup 3 3 (''/m/DCIM/c.jpg'', ''c.jpg'', 5)
        ''/backup/c.jpg''
        (dest_fs (copy_loop example_backup ''/backup'' 3 (take 2 (enumerate 1 example_files))
           \<lparr>outcomes = [], fetch_calls = [], dest_fs = Map.empty, interrupted = False\<rparr>)))
       = Some (outcomes (copy_files example_backup ''/backup'' example_files Map.empty) ! 2)"
    and third_call:
      "fetch_calls (copy_loop example_backup ''/backup'' 3 (take 3 (enumerate 1 example_files))
        \<lparr>outcomes = [], fetch_calls = [], dest_fs = Map.empty, interrupted = False\<rparr>)
       = fetch_calls (copy_loop example_backup ''/backup'' 3 (take 2 (enumerate 1 example_files))
           \<lparr>outcomes = [], fetch_calls = [], dest_fs = Map.empty, interrupted = False\<rparr>)
         @ [(''/m/DCIM/c.jpg'', ''/backup/c.jpg'')]"
    unfolding before_def after_def init_def len join by (simp_all add: eval_nat_numeral)
  have raised: "example_copy2 ''/m/DCIM/b.jpg'' ''/backup/b.jpg'' Map.empty = (Raised, Map.empty)"
    by (simp add: example_copy2_def)
  from fault_isolation [where ?shutil_copy2.0 = example_copy2 and remove = "\<lambda>path. Returned ()"
      and source_path = "''/m/DCIM/b.jpg''" and dest_path = "''/backup/b.jpg''"
      and fs = Map.empty and fs' = Map.empty and idx = 2 and total_files = 3
      and file_name = "''b.jpg''" and sz = 5,
      THEN conjunct2, THEN conjunct2, THEN conjunct1, THEN mp, OF raised]
  have failed: "try_copy example_backup 2 3 (''/m/DCIM/b.jpg'', ''b.jpg'', 5) ''/backup/b.jpg''
      Map.empty = (Some (Failed ''b.jpg''), Map.empty)"
    by (simp add: example_backup_def)
  have status: "(\<lambda>source_path dest_path fs. (Returned (1 :: int, 0 :: real), fs))
        ''/sdcard/DCIM/b.jpg'' ''/backup/b.jpg'' (Map.empty :: filesystem) = (Raised, Map.empty)
      \<or> (\<exists>rc elapsed. (\<lambda>source_path dest_path fs. (Returned (1 :: int, 0 :: real), fs))
            ''/sdcard/DCIM/b.jpg'' ''/backup/b.jpg'' (Map.empty :: filesystem)
            = (Returned (rc, elapsed), Map.empty) \<and> rc \<noteq> 0)"
    by simp
  note failed_pull = fault_isolation
    [where pull = "\<lambda>source_path dest_path fs. (Returned (1, 0), fs)"
      and rm = "\<lambda>path. Returned 0"
      and source_path = "''/sdcard/DCIM/b.jpg''" and dest_path = "''/backup/b.jpg''"
      and fs = Map.empty and fs' = Map.empty and idx = 2 and total_files = 3
      and file_name = "''b.jpg''" and sz = 5,
      THEN conjunct2, THEN conjunct2, THEN conjunct2, THEN conjunct1, THEN mp, OF status]
  have v: "verification example_run
       = Some ([''/m/DCIM/a.jpg'', ''/m/DCIM/c.jpg''], [''b.jpg''])"
    by code_simp
  have "case transferred example_run_interrupted of None \<Rightarrow> False | Some t \<Rightarrow> True"
    by code_simp
  then obtain t where t: "transferred example_run_interrupted = Some t"
    by (cases "transferred example_run_interrupted") auto
  have part: "map_option outcomes (transferred example_run_interrupted)
       = Some [Copied ''a.jpg'' 1 3 (5 / 2097152)]"
    by code_simp
  have "verify_files ''/backup'' (dest_fs (the (transferred example_run_interrupted)))
      example_files = ([''/m/DCIM/a.jpg''], [''b.jpg'', ''c.jpg''])"
    by code_simp
  with t have checked: "verify_files ''/backup'' (dest_fs t) example_files
      = ([''/m/DCIM/a.jpg''], [''b.jpg'', ''c.jpg''])"
    by simp
  from fault_isolation [where backup = "iPhoneBackup example_copy2_interrupted (\<lambda>path. Returned ())"
      and destination = "''/backup''" and stdin = "[''y'', ''n'']"
      and media_files = example_files and shutil_disk_usage = "\<lambda>d. Inl OSError"
      and fs = "\<lambda>path. None",
      THEN conjunct2, THEN conjunct2, THEN conjunct2, THEN conjunct2, THEN conjunct1,
      rule_format, OF t [unfolded example_run_interrupted_def], THEN conjunct1]
  have vi: "verification example_run_interrupted
       = Some ([''/m/DCIM/a.jpg''], [''b.jpg'', ''c.jpg''])"
    by (simp add: checked example_run_interrupted_def)
  from outs reported calls third third_call failed failed_pull v part vi show ?thesis by blast
qed

end
